theory Spec2Isabelle
  imports Complex_Main "HOL-Library.Char_ord" "HOL-Library.List_Lexorder" "HOL-Library.Multiset"
begin

section \<open>FIFO lot accounting of the bullion ledger\<close>

text \<open>
  The development embeds the calculation code of \<^verbatim>\<open>utils.ts\<close> and of the application
  component \<^verbatim>\<open>App\<close> (\<^verbatim>\<open>handleAddInvoice\<close>, \<^verbatim>\<open>currentStock\<close>, \<^verbatim>\<open>fifoValue\<close>, \<^verbatim>\<open>customerData\<close>).

  Conventions of the embedding:
  \<^item> a JavaScript \<^verbatim>\<open>number\<close> is a \<^typ>\<open>real\<close>: arithmetic is exact, rounding of IEEE doubles
    is not modelled, and the only not-a-number value that is modelled is the time of an
    invalid \<^verbatim>\<open>Date\<close> (\<^term>\<open>None\<close>);
  \<^item> an optional field (\<^verbatim>\<open>cogs?\<close>, \<^verbatim>\<open>closedDate?\<close>) is an \<^typ>\<open>'a option\<close>;
  \<^item> strings are compared as JavaScript compares them, lexicographically by character code
    (the order of \<^theory_text>\<open>Char_ord\<close> and \<^theory_text>\<open>List_Lexorder\<close>);
  \<^item> React state (\<^verbatim>\<open>invoices\<close>, \<^verbatim>\<open>inventory\<close>, \<^verbatim>\<open>toasts\<close>) is a record that each handler
    takes and returns; the random identifier of a toast is left out;
  \<^item> a name of the source that is taken in HOL (\<^verbatim>\<open>take\<close>, \<^verbatim>\<open>inv\<close>, \<^verbatim>\<open>totalCOGS\<close> as a variable)
    carries a prime.
\<close>

subsection \<open>Data model (\<^verbatim>\<open>types.ts\<close>)\<close>

datatype TransactionType = PURCHASE | SALE

record Invoice =
  id :: string
  date :: string
  type :: TransactionType
  partyName :: string
  quantityGrams :: real
  ratePerGram :: real
  gstRate :: real
  gstAmount :: real
  taxableAmount :: real
  totalAmount :: real
  cogs :: "real option"
  profit :: "real option"

record InventoryBatch =
  batchId :: string
  batchDate :: string
  originalQuantity :: real
  remainingQuantity :: real
  costPerGram :: real
  closedDate :: "string option"
  totalRevenue :: "real option"

record SupplierStat =
  supName :: string
  totalGramsPurchased :: real
  avgRate :: real
  minRate :: real
  maxRate :: real
  volatility :: real
  supTxCount :: nat

record TurnoverStats =
  turnoverRatio :: real
  avgDaysToSell :: "real option"
  avgInventoryValue :: real
  totalCOGS :: real

datatype ToastType = SUCCESS | ERROR

record AppState =
  invoices :: "Invoice list"
  inventory :: "InventoryBatch list"
  toasts :: "(ToastType \<times> string) list"

subsection \<open>Dates: \<^verbatim>\<open>new Date(s).getTime()\<close>\<close>

text \<open>
  Invoice and batch dates are strings \<^verbatim>\<open>YYYY-MM-DD\<close>. \<^verbatim>\<open>new Date(s).getTime()\<close> of such a
  string is the number of milliseconds from 1970-01-01 to midnight UTC of that day. Any other
  string is taken as an invalid date, whose time is NaN (\<^term>\<open>None\<close>); what an engine makes of
  a string outside the ISO format is left open by the language.
\<close>

definition digitVal :: "char \<Rightarrow> nat option" where
  "digitVal c = (if CHR ''0'' \<le> c \<and> c \<le> CHR ''9'' then Some (of_char c - 48) else None)"

fun digitsVal :: "nat \<Rightarrow> string \<Rightarrow> nat option" where
  "digitsVal acc [] = Some acc"
| "digitsVal acc (c # cs) =
     (case digitVal c of None \<Rightarrow> None | Some d \<Rightarrow> digitsVal (10 * acc + d) cs)"

definition isLeapYear :: "nat \<Rightarrow> bool" where
  "isLeapYear y = (y mod 4 = 0 \<and> (y mod 100 \<noteq> 0 \<or> y mod 400 = 0))"

definition daysInMonth :: "nat \<Rightarrow> nat \<Rightarrow> nat" where
  "daysInMonth y m =
     (if m = 2 then (if isLeapYear y then 29 else 28)
      else if m = 4 \<or> m = 6 \<or> m = 9 \<or> m = 11 then 30 else 31)"

definition daysFromCivil :: "nat \<Rightarrow> nat \<Rightarrow> nat \<Rightarrow> int" where
  "daysFromCivil y m d =
     (let y' = (if m \<le> 2 then int y - 1 else int y);
          era = y' div 400;
          yoe = y' - era * 400;
          mp = (if m > 2 then int m - 3 else int m + 9);
          doy = (153 * mp + 2) div 5 + int d - 1;
          doe = yoe * 365 + yoe div 4 - yoe div 100 + doy
      in era * 146097 + doe - 719468)"

definition getTime :: "string \<Rightarrow> real option" where
  "getTime s =
     (if length s = 10 \<and> s ! 4 = CHR ''-'' \<and> s ! 7 = CHR ''-'' then
        (case (digitsVal 0 (take 4 s), digitsVal 0 (take 2 (drop 5 s)), digitsVal 0 (drop 8 s)) of
           (Some y, Some m, Some d) \<Rightarrow>
             (if 1 \<le> m \<and> m \<le> 12 \<and> 1 \<le> d \<and> d \<le> daysInMonth y m
              then Some (real_of_int (daysFromCivil y m d) * 86400000) else None)
         | _ \<Rightarrow> None)
      else None)"

subsection \<open>\<^verbatim>\<open>Array.prototype.sort\<close> with a comparator\<close>

text \<open>
  The sort is stable. A comparator result that is NaN counts as \<open>0\<close>. The model is the stable
  insertion sort: an element is placed behind every element it is not smaller than.
\<close>

definition lessBy :: "('a \<Rightarrow> 'a \<Rightarrow> real option) \<Rightarrow> 'a \<Rightarrow> 'a \<Rightarrow> bool" where
  "lessBy cmp x y = (case cmp x y of Some v \<Rightarrow> v < 0 | None \<Rightarrow> False)"

fun insertBy :: "('a \<Rightarrow> 'a \<Rightarrow> real option) \<Rightarrow> 'a \<Rightarrow> 'a list \<Rightarrow> 'a list" where
  "insertBy cmp x [] = [x]"
| "insertBy cmp x (y # ys) = (if lessBy cmp x y then x # y # ys else y # insertBy cmp x ys)"

definition js_sort :: "('a \<Rightarrow> 'a \<Rightarrow> real option) \<Rightarrow> 'a list \<Rightarrow> 'a list" where
  "js_sort cmp xs = foldl (\<lambda>acc x. insertBy cmp x acc) [] xs"

text \<open>\<^verbatim>\<open>(a, b) => new Date(a.date).getTime() - new Date(b.date).getTime()\<close>\<close>

definition timeDiff :: "string \<Rightarrow> string \<Rightarrow> real option" where
  "timeDiff a b =
     (case (getTime a, getTime b) of (Some x, Some y) \<Rightarrow> Some (x - y) | _ \<Rightarrow> None)"

subsection \<open>The ledger: \<^verbatim>\<open>handleAddInvoice\<close>\<close>

text \<open>
  The loop of a sale over \<^verbatim>\<open>newInventory\<close>, the copy of the inventory that
  \<^verbatim>\<open>JSON.parse(JSON.stringify(inventory))\<close> makes (lots with the same field values). It returns
  the updated copy, what is left of \<^verbatim>\<open>remainingToSell\<close> and \<^verbatim>\<open>totalCOGS\<close>. \<^verbatim>\<open>break\<close> leaves the
  rest of the list as it is.
\<close>

definition takeFromBatch :: "Invoice \<Rightarrow> InventoryBatch \<Rightarrow> real \<Rightarrow> InventoryBatch" where
  "takeFromBatch invoice batch take' =
     (let b1 = batch\<lparr>totalRevenue :=
                 Some ((case totalRevenue batch of None \<Rightarrow> 0 | Some r \<Rightarrow> r)
                        + take' * ratePerGram invoice),
               remainingQuantity := remainingQuantity batch - take'\<rparr>
      in if remainingQuantity b1 < 0.0001
         then b1\<lparr>remainingQuantity := 0, closedDate := Some (date invoice)\<rparr>
         else b1)"

fun allocate :: "Invoice \<Rightarrow> InventoryBatch list \<Rightarrow> real \<Rightarrow> real
                  \<Rightarrow> InventoryBatch list \<times> real \<times> real" where
  "allocate invoice [] remainingToSell totalCOGS' = ([], remainingToSell, totalCOGS')"
| "allocate invoice (batch # rest) remainingToSell totalCOGS' =
     (if remainingToSell \<le> 0 then (batch # rest, remainingToSell, totalCOGS')
      else if remainingQuantity batch > 0 then
        (let take' = min (remainingQuantity batch) remainingToSell;
             (rest', r, c) = allocate invoice rest (remainingToSell - take')
                               (totalCOGS' + take' * costPerGram batch)
         in (takeFromBatch invoice batch take' # rest', r, c))
      else
        (let (rest', r, c) = allocate invoice rest remainingToSell totalCOGS'
         in (batch # rest', r, c)))"

definition newBatch :: "Invoice \<Rightarrow> InventoryBatch" where
  "newBatch invoice =
     \<lparr>batchId = id invoice, batchDate = date invoice,
      originalQuantity = quantityGrams invoice, remainingQuantity = quantityGrams invoice,
      costPerGram = ratePerGram invoice, closedDate = None, totalRevenue = None\<rparr>"

definition sortInventory :: "InventoryBatch list \<Rightarrow> InventoryBatch list" where
  "sortInventory = js_sort (\<lambda>a b. timeDiff (batchDate a) (batchDate b))"

definition addToast :: "ToastType \<Rightarrow> string \<Rightarrow> AppState \<Rightarrow> AppState" where
  "addToast t message s = s\<lparr>toasts := toasts s @ [(t, message)]\<rparr>"

definition handleAddInvoice :: "AppState \<Rightarrow> Invoice \<Rightarrow> AppState" where
  "handleAddInvoice s invoice =
     (if type invoice = PURCHASE then
        addToast SUCCESS ''Purchase recorded & Inventory Updated''
          (s\<lparr>invoices := invoice # invoices s,
             inventory := sortInventory (inventory s @ [newBatch invoice])\<rparr>)
      else
        (let (newInventory, remainingToSell, totalCOGS') =
               allocate invoice (inventory s) (quantityGrams invoice) 0
         in if remainingToSell > 0.001 then addToast ERROR ''FIFO Mismatch - Check Stock'' s
            else
              (let profit' = quantityGrams invoice * ratePerGram invoice - totalCOGS'
               in addToast SUCCESS ''Sale recorded. FIFO Logic Applied.''
                    (s\<lparr>invoices := invoice\<lparr>cogs := Some totalCOGS', profit := Some profit'\<rparr>
                                     # invoices s,
                       inventory := newInventory\<rparr>))))"

definition initialState :: AppState where
  "initialState = \<lparr>invoices = [], inventory = [], toasts = []\<rparr>"

text \<open>\<^verbatim>\<open>currentStock\<close> and \<^verbatim>\<open>fifoValue\<close>, the reductions over the inventory. The component runs
  them over the lots that match the search box; with an empty search these are all lots.\<close>

definition currentStock :: "InventoryBatch list \<Rightarrow> real" where
  "currentStock batches = foldl (\<lambda>acc batch. acc + remainingQuantity batch) 0 batches"

definition fifoValue :: "InventoryBatch list \<Rightarrow> real" where
  "fifoValue batches =
     foldl (\<lambda>acc batch. acc + remainingQuantity batch * costPerGram batch) 0 batches"

text \<open>The invoice that the entry form builds (\<^verbatim>\<open>calculateTotals\<close> and the object passed to
  \<^verbatim>\<open>onAdd\<close>), for fields that parse as numbers.\<close>

definition mkInvoice :: "string \<Rightarrow> string \<Rightarrow> TransactionType \<Rightarrow> string \<Rightarrow> real \<Rightarrow> real \<Rightarrow> real
                          \<Rightarrow> Invoice" where
  "mkInvoice i d t p qty rate gst =
     (let taxable = qty * rate; gstAmt = taxable * (gst / 100)
      in \<lparr>id = i, date = d, type = t, partyName = p, quantityGrams = qty, ratePerGram = rate,
          gstRate = gst, gstAmount = gstAmt, taxableAmount = taxable,
          totalAmount = taxable + gstAmt, cogs = None, profit = None\<rparr>)"

subsection \<open>The entry form: \<^verbatim>\<open>handleSubmit\<close>\<close>

text \<open>
  The state of the form, with its numeric fields parsed (\<^term>\<open>None\<close>: the field is empty).
  \<^verbatim>\<open>handleSubmit\<close> returns the invoice that it passes to \<^verbatim>\<open>onAdd\<close>, or nothing when it stops
  with an error message; the message is state of the form alone. No field is checked for its
  sign. The lock date comes from the local storage and is absent or a non-empty string.
\<close>

record FormData =
  formDate :: string
  formType :: TransactionType
  formPartyName :: string
  formQuantityGrams :: "real option"
  formRatePerGram :: "real option"
  formGstRate :: real

definition handleSubmit :: "string option \<Rightarrow> real \<Rightarrow> string \<Rightarrow> FormData \<Rightarrow> Invoice option" where
  "handleSubmit lockDate currentStock' newId formData =
     (if (case lockDate of None \<Rightarrow> False | Some l \<Rightarrow> l \<noteq> [] \<and> formDate formData \<le> l) then None
      else if formPartyName formData = [] then None
      else (case (formQuantityGrams formData, formRatePerGram formData) of
              (Some qty, Some rate) \<Rightarrow>
                if formType formData = SALE \<and> qty > currentStock' then None
                else Some (mkInvoice newId (formDate formData) (formType formData)
                             (formPartyName formData) qty rate (formGstRate formData))
            | _ \<Rightarrow> None))"

text \<open>
  The stock that the component hands to the form is \<^verbatim>\<open>currentStock\<close> over
  \<^verbatim>\<open>searchFilteredInventory\<close>: all lots when the search box is empty, else the lots whose purchase
  invoice has a party name that contains the query, both in lower case (of the letters A to
  Z).
\<close>

definition toLowerCase :: "string \<Rightarrow> string" where
  "toLowerCase =
     map (\<lambda>c. if CHR ''A'' \<le> c \<and> c \<le> CHR ''Z'' then char_of (of_char c + (32::nat)) else c)"

fun includes' :: "string \<Rightarrow> string \<Rightarrow> bool" where
  "includes' [] q = (q = [])"
| "includes' (c # s) q = (take (length q) (c # s) = q \<or> includes' s q)"

definition searchFilteredInventory :: "AppState \<Rightarrow> string \<Rightarrow> InventoryBatch list" where
  "searchFilteredInventory s searchQuery =
     (let query = toLowerCase searchQuery
      in if query = [] then inventory s
         else filter (\<lambda>batch. case find (\<lambda>inv'. id inv' = batchId batch) (invoices s) of
                                 None \<Rightarrow> False
                               | Some invoice \<Rightarrow> includes' (toLowerCase (partyName invoice)) query)
                (inventory s))"

text \<open>
  One use of the form: the lock date and the search box at that moment, the identifier that
  \<^verbatim>\<open>generateId\<close> draws, and the fields. The form calls \<^verbatim>\<open>handleAddInvoice\<close> or leaves the ledger
  as it is.
\<close>

record Submission =
  subLockDate :: "string option"
  subSearchQuery :: string
  subNewId :: string
  subFormData :: FormData

definition submit :: "AppState \<Rightarrow> Submission \<Rightarrow> AppState" where
  "submit s e =
     (case handleSubmit (subLockDate e)
             (currentStock (searchFilteredInventory s (subSearchQuery e)))
             (subNewId e) (subFormData e) of
        None \<Rightarrow> s
      | Some invoice \<Rightarrow> handleAddInvoice s invoice)"

subsection \<open>The valuation replayer: \<^verbatim>\<open>calculateInventoryValueOnDate\<close>\<close>

record ScratchBatch =
  quantity :: real
  cost :: real

text \<open>
  The \<^verbatim>\<open>while\<close> loop of a sale: \<^verbatim>\<open>batches[0]\<close> is decremented in place when it covers what is
  left to sell, and removed by \<^verbatim>\<open>shift()\<close> otherwise.
\<close>

function sellFromBatches :: "real \<Rightarrow> ScratchBatch list \<Rightarrow> ScratchBatch list" where
  "sellFromBatches remainingToSell [] = []"
| "sellFromBatches remainingToSell (currentBatch # rest) =
     (if remainingToSell > 0.000001 then
        (if quantity currentBatch > remainingToSell
         then sellFromBatches 0
                (currentBatch\<lparr>quantity := quantity currentBatch - remainingToSell\<rparr> # rest)
         else sellFromBatches (remainingToSell - quantity currentBatch) rest)
      else currentBatch # rest)"
  by pat_completeness auto
termination
  by (relation "measure (\<lambda>(r, bs). 2 * length bs + (if r > 0.000001 then 1 else 0))") auto

definition replayStep :: "ScratchBatch list \<Rightarrow> Invoice \<Rightarrow> ScratchBatch list" where
  "replayStep batches inv' =
     (if type inv' = PURCHASE
      then batches @ [\<lparr>quantity = quantityGrams inv', cost = ratePerGram inv'\<rparr>]
      else sellFromBatches (quantityGrams inv') batches)"

definition relevantInvoices :: "Invoice list \<Rightarrow> string \<Rightarrow> Invoice list" where
  "relevantInvoices invs targetDate =
     js_sort (\<lambda>a b. timeDiff (date a) (date b)) (filter (\<lambda>inv'. date inv' \<le> targetDate) invs)"

definition replayBatches :: "Invoice list \<Rightarrow> string \<Rightarrow> ScratchBatch list" where
  "replayBatches invs targetDate = foldl replayStep [] (relevantInvoices invs targetDate)"

definition batchesValue :: "ScratchBatch list \<Rightarrow> real" where
  "batchesValue batches = foldl (\<lambda>sum batch. sum + quantity batch * cost batch) 0 batches"

definition calculateInventoryValueOnDate :: "Invoice list \<Rightarrow> string \<Rightarrow> real" where
  "calculateInventoryValueOnDate invs targetDate = batchesValue (replayBatches invs targetDate)"

subsection \<open>Turnover: \<^verbatim>\<open>calculateTurnoverStats\<close>\<close>

text \<open>
  \<^verbatim>\<open>s.cogs || 0\<close> reads an absent \<^verbatim>\<open>cogs\<close> as \<open>0\<close>. The length of the period is NaN when one of
  the two dates is invalid, and \<^verbatim>\<open>Math.max(1, NaN)\<close> is NaN.
\<close>

definition orZero :: "real option \<Rightarrow> real" where
  "orZero v = (case v of None \<Rightarrow> 0 | Some x \<Rightarrow> x)"

definition daysInPeriod :: "string \<Rightarrow> string \<Rightarrow> real option" where
  "daysInPeriod startDate endDate =
     (case timeDiff endDate startDate of
        None \<Rightarrow> None
      | Some ms \<Rightarrow> Some (max 1 (ms / (1000 * 3600 * 24))))"

definition periodCOGS :: "Invoice list \<Rightarrow> string \<Rightarrow> string \<Rightarrow> real" where
  "periodCOGS invs startDate endDate =
     (let periodInvoices = filter (\<lambda>i. startDate \<le> date i \<and> date i \<le> endDate) invs;
          sales = filter (\<lambda>i. type i = SALE) periodInvoices
      in foldl (\<lambda>acc s. acc + orZero (cogs s)) 0 sales)"

definition calculateTurnoverStats :: "Invoice list \<Rightarrow> string \<Rightarrow> string \<Rightarrow> TurnoverStats" where
  "calculateTurnoverStats invs startDate endDate =
     (let totalCOGS' = periodCOGS invs startDate endDate;
          startInventoryVal = calculateInventoryValueOnDate invs startDate;
          endInventoryVal = calculateInventoryValueOnDate invs endDate;
          avgInventoryValue' = (startInventoryVal + endInventoryVal) / 2;
          turnoverRatio' = (if avgInventoryValue' > 0 then totalCOGS' / avgInventoryValue' else 0);
          avgDaysToSell' =
            (if turnoverRatio' > 0
             then map_option (\<lambda>d. d / turnoverRatio') (daysInPeriod startDate endDate)
             else Some 0)
      in \<lparr>turnoverRatio = turnoverRatio', avgDaysToSell = avgDaysToSell',
          avgInventoryValue = avgInventoryValue', totalCOGS = totalCOGS'\<rparr>)"

subsection \<open>Objects used as dictionaries\<close>

text \<open>
  \<^verbatim>\<open>stats\<close> and \<^verbatim>\<open>customerStats\<close> are plain objects keyed by party name. Their own properties
  are an association list in insertion order. \<^verbatim>\<open>Object.entries\<close> and \<^verbatim>\<open>Object.values\<close> list the
  keys that are array indices first, in ascending numeric order, then the other keys in
  insertion order. A key that \<^verbatim>\<open>Object.prototype\<close> already has is found on the prototype, so
  \<^verbatim>\<open>!stats[key]\<close> is false for it and no own property is created.
\<close>

definition objectPrototypeKeys :: "string list" where
  "objectPrototypeKeys =
     [''constructor'', ''__defineGetter__'', ''__defineSetter__'', ''hasOwnProperty'',
      ''__lookupGetter__'', ''__lookupSetter__'', ''isPrototypeOf'', ''propertyIsEnumerable'',
      ''toString'', ''valueOf'', ''__proto__'', ''toLocaleString'']"

definition indexValue :: "string \<Rightarrow> nat" where
  "indexValue k = (case digitsVal 0 k of None \<Rightarrow> 0 | Some n \<Rightarrow> n)"

definition isArrayIndex :: "string \<Rightarrow> bool" where
  "isArrayIndex k =
     (k \<noteq> [] \<and> digitsVal 0 k \<noteq> None \<and> (k = ''0'' \<or> hd k \<noteq> CHR ''0'')
      \<and> indexValue k < 4294967295)"

definition objectEntries :: "(string \<times> 'a) list \<Rightarrow> (string \<times> 'a) list" where
  "objectEntries kvs =
     sort_key (\<lambda>kv. indexValue (fst kv)) (filter (\<lambda>kv. isArrayIndex (fst kv)) kvs)
     @ filter (\<lambda>kv. \<not> isArrayIndex (fst kv)) kvs"

fun updateEntry :: "string \<Rightarrow> ('a \<Rightarrow> 'a) \<Rightarrow> 'a \<Rightarrow> (string \<times> 'a) list \<Rightarrow> (string \<times> 'a) list" where
  "updateEntry k f d [] = [(k, f d)]"
| "updateEntry k f d ((k', v) # rest) =
     (if k' = k then (k', f v) # rest else (k', v) # updateEntry k f d rest)"

subsection \<open>Supplier statistics: \<^verbatim>\<open>calculateSupplierStats\<close>\<close>

record SupplierAcc =
  accTotalGrams :: real
  accTotalCost :: real
  accCount :: nat
  accRates :: "real list"

datatype JsError = TypeError

text \<open>
  For a party name that \<^verbatim>\<open>Object.prototype\<close> has, \<^verbatim>\<open>stats[name].rates\<close> is undefined and
  \<^verbatim>\<open>.push\<close> on it throws.
\<close>

definition supplierStep :: "(string \<times> SupplierAcc) list \<Rightarrow> Invoice \<Rightarrow> JsError + (string \<times> SupplierAcc) list" where
  "supplierStep stats inv' =
     (if partyName inv' \<in> set objectPrototypeKeys then Inl TypeError
      else Inr (updateEntry (partyName inv')
                  (\<lambda>a. \<lparr>accTotalGrams = accTotalGrams a + quantityGrams inv',
                        accTotalCost = accTotalCost a + quantityGrams inv' * ratePerGram inv',
                        accCount = accCount a + 1,
                        accRates = accRates a @ [ratePerGram inv']\<rparr>)
                  \<lparr>accTotalGrams = 0, accTotalCost = 0, accCount = 0, accRates = []\<rparr>
                  stats))"

fun supplierLoop :: "(string \<times> SupplierAcc) list \<Rightarrow> Invoice list \<Rightarrow> JsError + (string \<times> SupplierAcc) list" where
  "supplierLoop stats [] = Inr stats"
| "supplierLoop stats (inv' # rest) =
     (case supplierStep stats inv' of Inl e \<Rightarrow> Inl e | Inr stats' \<Rightarrow> supplierLoop stats' rest)"

text \<open>\<^verbatim>\<open>Math.min(...rates)\<close> and \<^verbatim>\<open>Math.max(...rates)\<close>; \<^verbatim>\<open>rates\<close> is never empty here.\<close>

definition mathMin :: "real list \<Rightarrow> real" where
  "mathMin rates = Min (set rates)"

definition mathMax :: "real list \<Rightarrow> real" where
  "mathMax rates = Max (set rates)"

definition supplierStat :: "string \<times> SupplierAcc \<Rightarrow> SupplierStat" where
  "supplierStat entry =
     (let name = fst entry; data = snd entry;
          minRate' = mathMin (accRates data);
          maxRate' = mathMax (accRates data);
          avgRate' = (if accTotalGrams data > 0 then accTotalCost data / accTotalGrams data else 0);
          volatility' = maxRate' - minRate'
      in \<lparr>supName = name, totalGramsPurchased = accTotalGrams data, avgRate = avgRate',
          minRate = minRate', maxRate = maxRate', volatility = volatility',
          supTxCount = accCount data\<rparr>)"

definition calculateSupplierStats :: "Invoice list \<Rightarrow> JsError + SupplierStat list" where
  "calculateSupplierStats invs =
     (case supplierLoop [] (filter (\<lambda>i. type i = PURCHASE) invs) of
        Inl e \<Rightarrow> Inl e
      | Inr stats \<Rightarrow>
          Inr (js_sort (\<lambda>a b. Some (totalGramsPurchased b - totalGramsPurchased a))
                 (map supplierStat (objectEntries stats))))"

subsection \<open>Customer statistics: \<^verbatim>\<open>customerData\<close>\<close>

record CustomerAcc =
  accName :: string
  accGrams :: real
  accSpend :: real
  accProfit :: real
  accTxCount :: nat

record CustomerStat =
  name :: string
  totalGrams :: real
  totalSpend :: real
  profitContribution :: real
  txCount :: nat
  avgProfitPerGram :: real
  margin :: real
  avgQtyPerTx :: real
  avgSellingPrice :: real
  behaviorPattern :: string

text \<open>
  \<^verbatim>\<open>txCount\<close> is incremented for every invoice of the party, before the test for a sale. For a
  party name that \<^verbatim>\<open>Object.prototype\<close> has, the updates go to the inherited value and the
  object gets no entry.
\<close>

definition customerStep :: "(string \<times> CustomerAcc) list \<Rightarrow> Invoice \<Rightarrow> (string \<times> CustomerAcc) list" where
  "customerStep customerStats inv' =
     (if partyName inv' \<in> set objectPrototypeKeys then customerStats
      else updateEntry (partyName inv')
             (\<lambda>a. (if type inv' = SALE
                    then a\<lparr>accTxCount := accTxCount a + 1,
                           accGrams := accGrams a + quantityGrams inv',
                           accSpend := accSpend a + totalAmount inv',
                           accProfit := accProfit a + orZero (profit inv')\<rparr>
                    else a\<lparr>accTxCount := accTxCount a + 1\<rparr>))
             \<lparr>accName = partyName inv', accGrams = 0, accSpend = 0, accProfit = 0, accTxCount = 0\<rparr>
             customerStats)"

definition customerRow :: "CustomerAcc \<Rightarrow> CustomerStat" where
  "customerRow stat =
     (let margin' = (if accSpend stat > 0 then (accProfit stat / accSpend stat) * 100 else 0);
          avgQty = accGrams stat / real (accTxCount stat);
          avgSell = (if accGrams stat > 0 then accSpend stat / accGrams stat else 0);
          avgProfit = (if accGrams stat > 0 then accProfit stat / accGrams stat else 0);
          pattern = (if avgQty > 100 then ''Bulk Buyer''
                     else if accTxCount stat > 5 then ''Frequent'' else ''Regular'');
          pattern' = (if margin' < 0.5 then pattern @ '' (Price Sensitive)''
                      else if margin' > 2.0 then pattern @ '' (High Margin)'' else pattern)
      in \<lparr>name = accName stat, totalGrams = accGrams stat, totalSpend = accSpend stat,
          profitContribution = accProfit stat, txCount = accTxCount stat,
          avgProfitPerGram = avgProfit, margin = margin', avgQtyPerTx = avgQty,
          avgSellingPrice = avgSell, behaviorPattern = pattern'\<rparr>)"

definition customerData :: "Invoice list \<Rightarrow> CustomerStat list" where
  "customerData filteredInvoices =
     (let customerStats = foldl customerStep [] filteredInvoices;
          data = map customerRow
                   (filter (\<lambda>stat. accSpend stat > 0) (map snd (objectEntries customerStats)))
      in js_sort (\<lambda>a b. Some (profitContribution b - profitContribution a)) data)"

subsection \<open>The valuation replayer on a store of objects\<close>

text \<open>
  The replayer again, with the objects it touches in an explicit store, to settle what it
  mutates. Invoices, scratch pairs and arrays are objects at references; \<^verbatim>\<open>invoices\<close> is the
  reference of an array of references to invoice objects. \<^verbatim>\<open>filter\<close> allocates a new array,
  \<^verbatim>\<open>sort\<close> reorders that array in place, \<^verbatim>\<open>push\<close> of an object literal allocates a scratch
  pair, and \<^verbatim>\<open>currentBatch.quantity -= remainingToSell\<close> writes to the pair that \<^verbatim>\<open>batches[0]\<close>
  refers to. The array \<^verbatim>\<open>batches\<close> is local and never aliased: it is the list of the references
  it holds. A read of a reference that holds no object of the expected kind gives \<^term>\<open>None\<close>
  (it cannot happen in the typed program).
\<close>

type_synonym ref = nat

datatype JsObject = InvoiceObj Invoice | BatchObj ScratchBatch | ArrayObj "ref list"

record Heap =
  objects :: "ref \<Rightarrow> JsObject option"
  nextRef :: ref

definition getInvoice :: "Heap \<Rightarrow> ref \<Rightarrow> Invoice option" where
  "getInvoice h r = (case objects h r of Some (InvoiceObj i) \<Rightarrow> Some i | _ \<Rightarrow> None)"

definition getBatch :: "Heap \<Rightarrow> ref \<Rightarrow> ScratchBatch option" where
  "getBatch h r = (case objects h r of Some (BatchObj b) \<Rightarrow> Some b | _ \<Rightarrow> None)"

definition getArray :: "Heap \<Rightarrow> ref \<Rightarrow> ref list option" where
  "getArray h r = (case objects h r of Some (ArrayObj rs) \<Rightarrow> Some rs | _ \<Rightarrow> None)"

definition setObject :: "Heap \<Rightarrow> ref \<Rightarrow> JsObject \<Rightarrow> Heap" where
  "setObject h r obj = h\<lparr>objects := (objects h)(r \<mapsto> obj)\<rparr>"

definition alloc :: "Heap \<Rightarrow> JsObject \<Rightarrow> ref \<times> Heap" where
  "alloc h obj = (nextRef h, h\<lparr>objects := (objects h)(nextRef h \<mapsto> obj), nextRef := Suc (nextRef h)\<rparr>)"

fun filterRefs :: "Heap \<Rightarrow> string \<Rightarrow> ref list \<Rightarrow> ref list option" where
  "filterRefs h targetDate [] = Some []"
| "filterRefs h targetDate (r # rs) =
     (case getInvoice h r of
        None \<Rightarrow> None
      | Some inv' \<Rightarrow>
          (case filterRefs h targetDate rs of
             None \<Rightarrow> None
           | Some rs' \<Rightarrow> Some (if date inv' \<le> targetDate then r # rs' else rs')))"

definition refTimeDiff :: "Heap \<Rightarrow> ref \<Rightarrow> ref \<Rightarrow> real option" where
  "refTimeDiff h a b =
     (case (getInvoice h a, getInvoice h b) of
        (Some x, Some y) \<Rightarrow> timeDiff (date x) (date y)
      | _ \<Rightarrow> None)"

function sellFromBatches_heap :: "Heap \<Rightarrow> real \<Rightarrow> ref list \<Rightarrow> (Heap \<times> ref list) option" where
  "sellFromBatches_heap h remainingToSell [] = Some (h, [])"
| "sellFromBatches_heap h remainingToSell (r # rest) =
     (if remainingToSell > 0.000001 then
        (case getBatch h r of
           None \<Rightarrow> None
         | Some currentBatch \<Rightarrow>
             if quantity currentBatch > remainingToSell
             then sellFromBatches_heap
                    (setObject h r
                       (BatchObj (currentBatch\<lparr>quantity := quantity currentBatch - remainingToSell\<rparr>)))
                    0 (r # rest)
             else sellFromBatches_heap h (remainingToSell - quantity currentBatch) rest)
      else Some (h, r # rest))"
  by pat_completeness auto
termination
  by (relation "measure (\<lambda>(h, q, rs). 2 * length rs + (if q > 0.000001 then 1 else 0))") auto

fun replay_heap :: "Heap \<Rightarrow> ref list \<Rightarrow> ref list \<Rightarrow> (Heap \<times> ref list) option" where
  "replay_heap h batches [] = Some (h, batches)"
| "replay_heap h batches (r # rest) =
     (case getInvoice h r of
        None \<Rightarrow> None
      | Some inv' \<Rightarrow>
          if type inv' = PURCHASE then
            (let (b, h') = alloc h (BatchObj \<lparr>quantity = quantityGrams inv', cost = ratePerGram inv'\<rparr>)
             in replay_heap h' (batches @ [b]) rest)
          else
            (case sellFromBatches_heap h (quantityGrams inv') batches of
               None \<Rightarrow> None
             | Some (h', batches') \<Rightarrow> replay_heap h' batches' rest))"

fun sumBatches :: "Heap \<Rightarrow> real \<Rightarrow> ref list \<Rightarrow> real option" where
  "sumBatches h acc [] = Some acc"
| "sumBatches h acc (r # rs) =
     (case getBatch h r of
        None \<Rightarrow> None
      | Some batch \<Rightarrow> sumBatches h (acc + quantity batch * cost batch) rs)"

definition calculateInventoryValueOnDate_heap :: "Heap \<Rightarrow> ref \<Rightarrow> string \<Rightarrow> (real \<times> Heap) option" where
  "calculateInventoryValueOnDate_heap h invoicesRef targetDate =
     (case getArray h invoicesRef of
        None \<Rightarrow> None
      | Some rs \<Rightarrow>
          (case filterRefs h targetDate rs of
             None \<Rightarrow> None
           | Some filtered \<Rightarrow>
               (let (a, h1) = alloc h (ArrayObj filtered);
                    h2 = setObject h1 a (ArrayObj (js_sort (refTimeDiff h1) filtered))
                in case getArray h2 a of
                     None \<Rightarrow> None
                   | Some relevant \<Rightarrow>
                       (case replay_heap h2 [] relevant of
                          None \<Rightarrow> None
                        | Some (h3, batches) \<Rightarrow>
                            (case sumBatches h3 0 batches of
                               None \<Rightarrow> None
                             | Some v \<Rightarrow> Some (v, h3))))))"

text \<open>A sequence of calls on the same array, each on the store that the call before left.\<close>

fun valueCalls :: "Heap \<Rightarrow> ref \<Rightarrow> string list \<Rightarrow> (real list \<times> Heap) option" where
  "valueCalls h invoicesRef [] = Some ([], h)"
| "valueCalls h invoicesRef (d # ds) =
     (case calculateInventoryValueOnDate_heap h invoicesRef d of
        None \<Rightarrow> None
      | Some (v, h') \<Rightarrow>
          (case valueCalls h' invoicesRef ds of
             None \<Rightarrow> None
           | Some (vs, h'') \<Rightarrow> Some (v # vs, h'')))"

text \<open>The invoices that an array refers to; a store whose references from \<open>nextRef\<close> on are
  free; and two stores that agree below a reference.\<close>

definition readInvoices :: "Heap \<Rightarrow> ref \<Rightarrow> Invoice list option" where
  "readInvoices h invoicesRef =
     (case getArray h invoicesRef of None \<Rightarrow> None | Some rs \<Rightarrow> those (map (getInvoice h) rs))"

definition freshAbove :: "Heap \<Rightarrow> bool" where
  "freshAbove h = (\<forall>r. nextRef h \<le> r \<longrightarrow> objects h r = None)"

definition sameBelow :: "ref \<Rightarrow> Heap \<Rightarrow> Heap \<Rightarrow> bool" where
  "sameBelow n h h' = (\<forall>r. r < n \<longrightarrow> objects h' r = objects h r)"

subsection \<open>Descriptions used in the statements\<close>


text \<open>Scenario 2 of the specification, with day 1, 3 and 5 of January 2024.\<close>

definition scenario2 :: "Invoice list" where
  "scenario2 =
     [mkInvoice ''p1'' ''2024-01-01'' PURCHASE ''Supplier A'' 50 6000 3,
      mkInvoice ''p2'' ''2024-01-03'' PURCHASE ''Supplier B'' 50 6200 3,
      mkInvoice ''s1'' ''2024-01-05'' SALE ''Customer C'' 60 6500 3]"

text \<open>A use of the form with no lock date and a tax rate of 3, for a search query, an
  identifier, a date, a type, a party, a quantity and a rate.\<close>

definition formEntry :: "string \<Rightarrow> string \<Rightarrow> string \<Rightarrow> TransactionType \<Rightarrow> string \<Rightarrow> real \<Rightarrow> real
                      \<Rightarrow> Submission" where
  "formEntry q i d t p qty rate =
     \<lparr>subLockDate = None, subSearchQuery = q, subNewId = i,
      subFormData = \<lparr>formDate = d, formType = t, formPartyName = p, formQuantityGrams = Some qty,
                  formRatePerGram = Some rate, formGstRate = 3\<rparr>\<rparr>"

text \<open>A ledger with one lot of 10 g, and a sale of 20 g, as an invoice and as entered in the
  form.\<close>

definition oneLotState :: AppState where
  "oneLotState =
     handleAddInvoice initialState (mkInvoice ''p1'' ''2024-01-01'' PURCHASE ''Supplier A'' 10 100 3)"

definition bigSale :: Invoice where
  "bigSale = mkInvoice ''s1'' ''2024-01-02'' SALE ''Customer C'' 20 120 3"

definition bigSaleEntry :: Submission where
  "bigSaleEntry = formEntry [] ''s1'' ''2024-01-02'' SALE ''Customer C'' 20 120"

text \<open>Purchases of - 5 g from Supplier A and of 10 g from Supplier B, entered with an empty
  search box; and a sale of 7 g entered while the search box holds \<open>b\<close>.\<close>

definition negativeLotEntries :: "Submission list" where
  "negativeLotEntries =
     [formEntry [] ''p1'' ''2024-01-01'' PURCHASE ''Supplier A'' (- 5) 100,
      formEntry [] ''p2'' ''2024-01-02'' PURCHASE ''Supplier B'' 10 100]"

definition hiddenLotSale :: Submission where
  "hiddenLotSale = formEntry ''b'' ''s1'' ''2024-01-03'' SALE ''Customer C'' 7 120"

text \<open>A purchase of 10 g at a rate of - 5 and a sale of 4 g, entered in the form.\<close>

definition negativeRateEntries :: "Submission list" where
  "negativeRateEntries =
     [formEntry [] ''p1'' ''2024-01-01'' PURCHASE ''Supplier A'' 10 (- 5),
      formEntry [] ''s1'' ''2024-01-03'' SALE ''Customer C'' 4 6]"



text \<open>The stock of the scratch list, and scratch pairs without a negative component.\<close>

definition batchesStock :: "ScratchBatch list \<Rightarrow> real" where
  "batchesStock bs = sum_list (map quantity bs)"

definition nonnegBatch :: "ScratchBatch \<Rightarrow> bool" where
  "nonnegBatch b = (0 \<le> quantity b \<and> 0 \<le> cost b)"

text \<open>The ledger after scenario 2.\<close>

definition scenario2Ledger :: AppState where
  "scenario2Ledger = foldl handleAddInvoice initialState scenario2"

text \<open>Invoices of two purchases, of 1 g and of 0.0000005 g, and of a sale of 1.0000006 g.\<close>

definition residueInvoices :: "Invoice list" where
  "residueInvoices =
     [mkInvoice ''s1'' ''2024-01-05'' SALE ''Customer C'' 1.0000006 120 3,
      mkInvoice ''p2'' ''2024-01-03'' PURCHASE ''Supplier B'' 0.0000005 100 3,
      mkInvoice ''p1'' ''2024-01-01'' PURCHASE ''Supplier A'' 1 100 3]"

text \<open>A step of grouping by key, as both statistics loops do it: the entry of the key is
  updated, or created from a start value. The update of the supplier loop and its start
  value.\<close>

definition groupStep :: "('i \<Rightarrow> string) \<Rightarrow> ('i \<Rightarrow> 'a \<Rightarrow> 'a) \<Rightarrow> (string \<Rightarrow> 'a)
                          \<Rightarrow> (string \<times> 'a) list \<Rightarrow> 'i \<Rightarrow> (string \<times> 'a) list" where
  "groupStep key f D kvs i = updateEntry (key i) (f i) (D (key i)) kvs"



text \<open>The update of the customer loop and its start value.\<close>

definition customerUpdate :: "Invoice \<Rightarrow> CustomerAcc \<Rightarrow> CustomerAcc" where
  "customerUpdate i a =
     (if type i = SALE
      then a\<lparr>accTxCount := accTxCount a + 1,
             accGrams := accGrams a + quantityGrams i,
             accSpend := accSpend a + totalAmount i,
             accProfit := accProfit a + orZero (profit i)\<rparr>
      else a\<lparr>accTxCount := accTxCount a + 1\<rparr>)"

definition customerAcc0 :: "string \<Rightarrow> CustomerAcc" where
  "customerAcc0 k = \<lparr>accName = k, accGrams = 0, accSpend = 0, accProfit = 0, accTxCount = 0\<rparr>"

text \<open>
  The customer statistics in the words of the specification: the sale transactions of a
  counterparty, and the base tag computed from them alone (average grams per sale transaction
  above 100, else more than 5 sale transactions).
\<close>

definition salesOf :: "Invoice list \<Rightarrow> string \<Rightarrow> Invoice list" where
  "salesOf invs k = filter (\<lambda>i. type i = SALE) (filter (\<lambda>i. partyName i = k) invs)"

definition specBaseTag :: "Invoice list \<Rightarrow> string \<Rightarrow> string" where
  "specBaseTag invs k =
     (if sum_list (map quantityGrams (salesOf invs k)) / real (length (salesOf invs k)) > 100
      then ''Bulk Buyer''
      else if length (salesOf invs k) > 5 then ''Frequent'' else ''Regular'')"

text \<open>The suffix of the behaviour pattern for a margin in percent.\<close>

definition patternSuffix :: "real \<Rightarrow> string" where
  "patternSuffix m =
     (if m < 0.5 then '' (Price Sensitive)'' else if m > 2.0 then '' (High Margin)'' else [])"

text \<open>A dealer who sold 200 g to the business and bought 150 g from it.\<close>

definition dealerInvoices :: "Invoice list" where
  "dealerInvoices =
     invoices (foldl handleAddInvoice initialState
       [mkInvoice ''p1'' ''2024-01-01'' PURCHASE ''Dealer D'' 200 6000 3,
        mkInvoice ''s1'' ''2024-01-03'' SALE ''Dealer D'' 150 6500 3])"











text \<open>A store with a purchase of 10 g on day 1, a sale of 4 g on day 3, and the invoice array,
  newest first.\<close>

definition sameDayHeap :: Heap where
  "sameDayHeap =
     \<lparr>objects = [0 \<mapsto> InvoiceObj (mkInvoice ''p1'' ''2024-01-01'' PURCHASE ''Supplier A'' 10 100 3),
                 1 \<mapsto> InvoiceObj (mkInvoice ''s1'' ''2024-01-03'' SALE ''Customer C'' 4 120 3),
                 2 \<mapsto> ArrayObj [1, 0]],
      nextRef = 3\<rparr>"










text \<open>Invoices and lots without a negative number, and a ledger that holds only such.\<close>

definition invoiceOk :: "Invoice \<Rightarrow> bool" where
  "invoiceOk i = (0 \<le> quantityGrams i \<and> 0 \<le> ratePerGram i \<and> 0 \<le> orZero (cogs i))"

definition lotNonneg :: "InventoryBatch \<Rightarrow> bool" where
  "lotNonneg b = (0 \<le> remainingQuantity b \<and> 0 \<le> costPerGram b)"

definition ledgerOk :: "AppState \<Rightarrow> bool" where
  "ledgerOk s = (list_all invoiceOk (invoices s) \<and> list_all lotNonneg (inventory s))"

section \<open>Verification\<close>

subsection \<open>Evaluation of the scenarios\<close>

lemma getTime_day1: "getTime ''2024-01-01'' = Some 1704067200000"
  by (simp add: getTime_def digitVal_def daysInMonth_def isLeapYear_def daysFromCivil_def)

lemma getTime_day2: "getTime ''2024-01-02'' = Some 1704153600000"
  by (simp add: getTime_def digitVal_def daysInMonth_def isLeapYear_def daysFromCivil_def)

lemma getTime_day3: "getTime ''2024-01-03'' = Some 1704240000000"
  by (simp add: getTime_def digitVal_def daysInMonth_def isLeapYear_def daysFromCivil_def)

lemma getTime_day5: "getTime ''2024-01-05'' = Some 1704412800000"
  by (simp add: getTime_def digitVal_def daysInMonth_def isLeapYear_def daysFromCivil_def)

lemmas getTime_days = getTime_day1 getTime_day2 getTime_day3 getTime_day5

lemmas ledger_eval =
  handleAddInvoice_def initialState_def mkInvoice_def addToast_def newBatch_def
  sortInventory_def js_sort_def lessBy_def timeDiff_def takeFromBatch_def Let_def
  currentStock_def fifoValue_def

lemma lower_eval:
  "toLowerCase [] = []" "toLowerCase ''b'' = ''b''"
  "toLowerCase ''Supplier A'' = ''supplier a''" "toLowerCase ''Supplier B'' = ''supplier b''"
  by code_simp+

lemmas form_eval = submit_def handleSubmit_def formEntry_def searchFilteredInventory_def


lemma oneLotState_eval:
  "oneLotState =
     \<lparr>invoices = [mkInvoice ''p1'' ''2024-01-01'' PURCHASE ''Supplier A'' 10 100 3],
      inventory =
        [\<lparr>batchId = ''p1'', batchDate = ''2024-01-01'', originalQuantity = 10,
          remainingQuantity = 10, costPerGram = 100, closedDate = None, totalRevenue = None\<rparr>],
      toasts = [(SUCCESS, ''Purchase recorded & Inventory Updated'')]\<rparr>"
  by (simp add: oneLotState_def ledger_eval)

subsection \<open>Sums\<close>

lemma foldl_plus_sum_list:
  "foldl (\<lambda>acc x. acc + f x) a xs = (a::real) + sum_list (map f xs)"
  by (induction xs arbitrary: a) simp_all

lemma currentStock_sum: "currentStock bs = sum_list (map remainingQuantity bs)"
  by (simp add: currentStock_def foldl_plus_sum_list)


lemma sum_list_nonneg_real:
  "\<forall>x\<in>set xs. 0 \<le> f x \<Longrightarrow> (0::real) \<le> sum_list (map f xs)"
  by (induction xs) simp_all

subsection \<open>The allocation loop on lots without negative stock\<close>

text \<open>What is left to sell after the loop is the part of the request that the stock does not
  cover.\<close>

lemma allocate_remaining:
  "\<forall>b\<in>set bs. 0 \<le> remainingQuantity b \<Longrightarrow> 0 \<le> r \<Longrightarrow>
   fst (snd (allocate i bs r c)) = max 0 (r - sum_list (map remainingQuantity bs))"
proof (induction bs arbitrary: r c)
  case Nil
  then show ?case by simp
next
  case (Cons b bs)
  have nn: "0 \<le> sum_list (map remainingQuantity bs)"
    using Cons.prems(1) by (intro sum_list_nonneg_real) simp
  have b0: "0 \<le> remainingQuantity b" using Cons.prems(1) by simp
  show ?case
  proof (cases "r \<le> 0")
    case True
    with Cons.prems(2) nn b0 show ?thesis by simp
  next
    case False
    show ?thesis
    proof (cases "remainingQuantity b > 0")
      case True
      let ?t = "min (remainingQuantity b) r"
      have "0 \<le> r - ?t" by simp
      from Cons.IH[OF _ this] Cons.prems(1)
      have "fst (snd (allocate i bs (r - ?t) (c + ?t * costPerGram b)))
              = max 0 (r - ?t - sum_list (map remainingQuantity bs))" by simp
      with False True nn show ?thesis
        by (auto simp: Let_def split: prod.splits simp: min_def max_def)
    next
      case F2: False
      with b0 have "remainingQuantity b = 0" by simp
      with False F2 Cons.IH[of r c] Cons.prems show ?thesis
        by (auto simp: Let_def split: prod.splits)
    qed
  qed
qed


subsection \<open>Claims about the ledger\<close>

text \<open>
  Claim C1. Purchases of 50 g at 6000 on day 1 and of 50 g at 6200 on day 3 open two lots. The
  sale of 60 g at 6500 on day 5 takes 50 g from the first lot (cost 300000), which is left with
  0 g and closed on the date of the sale, and 10 g from the second lot (cost 62000), which is
  left with 40 g. The sale is recorded with \<open>cogs = 362000\<close> and \<open>profit = 28000\<close>.
\<close>

theorem C1_scenario2:
  "inventory (foldl handleAddInvoice initialState (take 2 scenario2)) =
     [newBatch (scenario2 ! 0), newBatch (scenario2 ! 1)]
   \<and> inventory (foldl handleAddInvoice initialState scenario2) =
     [(newBatch (scenario2 ! 0))
        \<lparr>remainingQuantity := 0, closedDate := Some (date (scenario2 ! 2)),
          totalRevenue := Some (50 * 6500)\<rparr>,
      (newBatch (scenario2 ! 1))
        \<lparr>remainingQuantity := 40, totalRevenue := Some (10 * 6500)\<rparr>]
   \<and> invoices (foldl handleAddInvoice initialState scenario2) =
     [(scenario2 ! 2)\<lparr>cogs := Some 362000, profit := Some 28000\<rparr>, scenario2 ! 1, scenario2 ! 0]
   \<and> allocate (scenario2 ! 2) [newBatch (scenario2 ! 0)] 60 0
       = ([(newBatch (scenario2 ! 0))
             \<lparr>remainingQuantity := 0, closedDate := Some (date (scenario2 ! 2)),
               totalRevenue := Some (50 * 6500)\<rparr>], 10, 300000)
   \<and> allocate (scenario2 ! 2) [newBatch (scenario2 ! 1)] 10 300000
       = ([(newBatch (scenario2 ! 1))\<lparr>remainingQuantity := 40, totalRevenue := Some (10 * 6500)\<rparr>],
          0, 300000 + 62000)
   \<and> quantityGrams (scenario2 ! 2) * ratePerGram (scenario2 ! 2) = 390000"
  by (simp add: scenario2_def ledger_eval getTime_days)

text \<open>The stock shown to the form is never above the whole stock of such lots.\<close>

lemma sum_list_filter_le:
  "\<forall>x\<in>set xs. 0 \<le> f x \<Longrightarrow> sum_list (map f (filter P xs)) \<le> (sum_list (map f xs) :: real)"
  by (induction xs) (auto intro: order_trans)

lemma displayedStock_le:
  assumes "\<forall>b\<in>set (inventory s). 0 \<le> remainingQuantity b"
  shows "currentStock (searchFilteredInventory s q) \<le> currentStock (inventory s)"
  unfolding currentStock_sum searchFilteredInventory_def Let_def
  using sum_list_filter_le[OF assms] by simp

text \<open>
  Claim C2, as it is written, fails on a ledger that holds a lot with negative stock. The entry
  form checks no sign and accepts a purchase of - 5 g; with a second lot of 10 g the whole stock
  is 5 g. While the search box holds \<open>b\<close>, the stock handed to the form is that of the lots of
  Supplier B, 10 g, so the form lets a sale of 7 g through. \<^verbatim>\<open>handleAddInvoice\<close> skips the lot
  without stock, takes the 7 g from the second lot and commits the sale, 2 g above the stock.
\<close>

theorem C2_counterexample:
  "map remainingQuantity (inventory (foldl submit initialState negativeLotEntries)) = [- 5, 10]
   \<and> currentStock (inventory (foldl submit initialState negativeLotEntries)) = 5
   \<and> formQuantityGrams (subFormData hiddenLotSale) = Some 7
   \<and> map remainingQuantity
        (inventory (submit (foldl submit initialState negativeLotEntries) hiddenLotSale)) = [- 5, 3]
   \<and> map type (invoices (submit (foldl submit initialState negativeLotEntries) hiddenLotSale))
       = [SALE, PURCHASE, PURCHASE]"
  by (simp add: negativeLotEntries_def hiddenLotSale_def form_eval ledger_eval getTime_days
      lower_eval)

text \<open>
  Claim C2, amended. In a ledger whose lots have no negative stock, a sale of more than the
  whole remaining stock plus 0.001 g is rejected. Entered in the form, it is stopped there,
  whatever the search box holds, and the ledger is what it was. Passed to \<^verbatim>\<open>handleAddInvoice\<close>,
  it is rejected with the \<^verbatim>\<open>FIFO Mismatch\<close> error: the lots (remaining quantity, closing date,
  revenue) and the invoices are what they were, only the error toast is added.
\<close>

theorem C2_insufficient_stock_rejected:
  assumes "\<forall>b\<in>set (inventory s). 0 \<le> remainingQuantity b"
    and "type invoice = SALE"
    and "quantityGrams invoice > currentStock (inventory s) + 0.001"
    and "formType (subFormData e) = SALE"
    and "formQuantityGrams (subFormData e) = Some (quantityGrams invoice)"
  shows "handleAddInvoice s invoice = addToast ERROR ''FIFO Mismatch - Check Stock'' s
         \<and> inventory (handleAddInvoice s invoice) = inventory s
         \<and> invoices (handleAddInvoice s invoice) = invoices s
         \<and> submit s e = s"
proof -
  have nn: "0 \<le> currentStock (inventory s)"
    unfolding currentStock_sum using assms(1) by (intro sum_list_nonneg_real) simp
  with assms(3) have q0: "0 \<le> quantityGrams invoice" by simp
  obtain newInventory r c where
    a: "allocate invoice (inventory s) (quantityGrams invoice) 0 = (newInventory, r, c)"
    by (cases "allocate invoice (inventory s) (quantityGrams invoice) 0") auto
  have "r = max 0 (quantityGrams invoice - currentStock (inventory s))"
    unfolding currentStock_sum using allocate_remaining[OF assms(1) q0, of invoice 0] a by simp
  with assms(3) have "r > 0.001" by simp
  with assms(2) a
  have h: "handleAddInvoice s invoice = addToast ERROR ''FIFO Mismatch - Check Stock'' s"
    by (simp add: handleAddInvoice_def addToast_def)
  have "quantityGrams invoice > currentStock (searchFilteredInventory s (subSearchQuery e))"
    using displayedStock_le[OF assms(1), of "subSearchQuery e"] assms(3) by simp
  then have "handleSubmit (subLockDate e) (currentStock (searchFilteredInventory s (subSearchQuery e)))
               (subNewId e) (subFormData e) = None"
    using assms(4,5) by (simp add: handleSubmit_def split: option.splits)
  then have "submit s e = s" by (simp add: submit_def)
  with h show ?thesis by (simp add: addToast_def)
qed

theorem C2_witness:
  "list_all (\<lambda>b. 0 \<le> remainingQuantity b) (inventory oneLotState)
   \<and> type bigSale = SALE
   \<and> quantityGrams bigSale > currentStock (inventory oneLotState) + 0.001
   \<and> formType (subFormData bigSaleEntry) = SALE
   \<and> formQuantityGrams (subFormData bigSaleEntry) = Some (quantityGrams bigSale)
   \<and> handleAddInvoice oneLotState bigSale = addToast ERROR ''FIFO Mismatch - Check Stock'' oneLotState
   \<and> inventory (handleAddInvoice oneLotState bigSale) = inventory oneLotState
   \<and> invoices (handleAddInvoice oneLotState bigSale) = invoices oneLotState
   \<and> submit oneLotState bigSaleEntry = oneLotState"
proof -
  have h1: "\<forall>b\<in>set (inventory oneLotState). 0 \<le> remainingQuantity b"
    by (simp add: oneLotState_eval)
  have h2: "type bigSale = SALE"
    by (simp add: bigSale_def mkInvoice_def)
  have h3: "quantityGrams bigSale > currentStock (inventory oneLotState) + 0.001"
    by (simp add: oneLotState_eval bigSale_def mkInvoice_def currentStock_def)
  have h4: "formType (subFormData bigSaleEntry) = SALE"
    by (simp add: bigSaleEntry_def formEntry_def)
  have h5: "formQuantityGrams (subFormData bigSaleEntry) = Some (quantityGrams bigSale)"
    by (simp add: bigSaleEntry_def formEntry_def bigSale_def mkInvoice_def)
  from C2_insufficient_stock_rejected[OF h1 h2 h3 h4 h5] h1 h2 h3 h4 h5 show ?thesis
    by (simp add: list_all_iff addToast_def)
qed




subsection \<open>The sort keeps the elements\<close>

lemma mset_insertBy: "mset (insertBy cmp x ys) = add_mset x (mset ys)"
  by (induction ys) simp_all

lemma mset_foldl_insertBy:
  "mset (foldl (\<lambda>acc x. insertBy cmp x acc) acc xs) = mset acc + mset xs"
  by (induction xs arbitrary: acc) (simp_all add: mset_insertBy)

lemma mset_js_sort: "mset (js_sort cmp xs) = mset xs"
  by (simp add: js_sort_def mset_foldl_insertBy)

lemma set_js_sort: "set (js_sort cmp xs) = set xs"
  by (metis mset_js_sort set_mset_mset)

subsection \<open>The valuation replayer\<close>

lemma set_relevantInvoices: "set (relevantInvoices invs d) \<subseteq> set invs"
  by (auto simp: relevantInvoices_def set_js_sort)

lemma sellFromBatches_nonneg:
  "list_all nonnegBatch bs \<Longrightarrow> list_all nonnegBatch (sellFromBatches r bs)"
  by (induction r bs rule: sellFromBatches.induct) (auto simp: nonnegBatch_def)

lemma replayStep_nonneg:
  "list_all nonnegBatch bs \<Longrightarrow> 0 \<le> quantityGrams i \<Longrightarrow> 0 \<le> ratePerGram i \<Longrightarrow>
   list_all nonnegBatch (replayStep bs i)"
  by (simp add: replayStep_def sellFromBatches_nonneg) (simp add: nonnegBatch_def)

lemma replay_nonneg:
  "list_all nonnegBatch bs \<Longrightarrow> \<forall>i\<in>set is. 0 \<le> quantityGrams i \<and> 0 \<le> ratePerGram i \<Longrightarrow>
   list_all nonnegBatch (foldl replayStep bs is)"
  by (induction "is" arbitrary: bs) (simp_all add: replayStep_nonneg)

lemma batchesValue_sum: "batchesValue bs = sum_list (map (\<lambda>b. quantity b * cost b) bs)"
  by (simp add: batchesValue_def foldl_plus_sum_list)

lemma batchesValue_nonneg: "list_all nonnegBatch bs \<Longrightarrow> 0 \<le> batchesValue bs"
  unfolding batchesValue_sum
  by (rule sum_list_nonneg_real) (simp add: list_all_iff nonnegBatch_def)

lemma replayBatches_nonneg:
  assumes "\<forall>i\<in>set invs. 0 \<le> quantityGrams i \<and> 0 \<le> ratePerGram i"
  shows "list_all nonnegBatch (foldl replayStep [] (take n (relevantInvoices invs d)))"
proof (rule replay_nonneg)
  show "list_all nonnegBatch []" by simp
  show "\<forall>i\<in>set (take n (relevantInvoices invs d)). 0 \<le> quantityGrams i \<and> 0 \<le> ratePerGram i"
    using assms set_relevantInvoices[of invs d] by (meson in_set_takeD subsetD)
qed

lemma value_nonneg:
  assumes "\<forall>i\<in>set invs. 0 \<le> quantityGrams i \<and> 0 \<le> ratePerGram i"
  shows "0 \<le> calculateInventoryValueOnDate invs d"
  using replayBatches_nonneg[OF assms, of "length (relevantInvoices invs d)" d]
  by (simp add: calculateInventoryValueOnDate_def replayBatches_def batchesValue_nonneg)

text \<open>A sale of more than the stock of the scratch list plus the margin of the loop removes
  every pair.\<close>

lemma sellFromBatches_empties:
  "list_all (\<lambda>b. 0 \<le> quantity b) bs \<Longrightarrow> batchesStock bs + 0.000001 < q \<Longrightarrow>
   sellFromBatches q bs = []"
proof (induction q bs rule: sellFromBatches.induct)
  case (1 r)
  then show ?case by simp
next
  case (2 r b rest)
  have nn: "0 \<le> batchesStock rest"
    unfolding batchesStock_def using 2(3) by (intro sum_list_nonneg_real) (simp add: list_all_iff)
  have b0: "0 \<le> quantity b" using 2(3) by simp
  from 2(4) have lt: "quantity b + batchesStock rest + 0.000001 < r" by (simp add: batchesStock_def)
  with nn b0 have big: "r > 0.000001" and nb: "\<not> quantity b > r" by simp_all
  have "sellFromBatches (r - quantity b) rest = []"
    using 2(2)[OF big nb] 2(3) lt by simp
  with big nb show ?case by simp
qed

lemma calculateInventoryValueOnDate_Nil: "calculateInventoryValueOnDate [] d = 0"
  by (simp add: calculateInventoryValueOnDate_def replayBatches_def relevantInvoices_def
      js_sort_def batchesValue_def)

lemmas replay_core =
  calculateInventoryValueOnDate_def replayBatches_def relevantInvoices_def replayStep_def
  batchesValue_def batchesStock_def

lemmas replay_eval =
  replay_core mkInvoice_def js_sort_def lessBy_def timeDiff_def getTime_days

lemma scenario2Ledger_invoices:
  "invoices scenario2Ledger =
     [(mkInvoice ''s1'' ''2024-01-05'' SALE ''Customer C'' 60 6500 3)
         \<lparr>cogs := Some 362000, profit := Some 28000\<rparr>,
      mkInvoice ''p2'' ''2024-01-03'' PURCHASE ''Supplier B'' 50 6200 3,
      mkInvoice ''p1'' ''2024-01-01'' PURCHASE ''Supplier A'' 50 6000 3]"
  by (simp add: scenario2Ledger_def scenario2_def ledger_eval getTime_days)

lemma scenario2Ledger_values:
  "calculateInventoryValueOnDate (invoices scenario2Ledger) ''2024-01-01'' = 300000"
  "calculateInventoryValueOnDate (invoices scenario2Ledger) ''2024-01-05'' = 248000"
  "periodCOGS (invoices scenario2Ledger) ''2024-01-01'' ''2024-01-05'' = 362000"
  by (simp_all add: scenario2Ledger_invoices replay_eval periodCOGS_def orZero_def)

text \<open>
  Claim C9, as it is written, fails in its clause on a sale that exceeds the replayed stock:
  the loop stops as soon as at most 0.000001 g is left to sell. After purchases of 1 g and of
  0.0000005 g, the sale of 1.0000006 g exceeds the stock of 1.0000005 g, and the second pair
  stays in the scratch list.
\<close>

theorem C9_counterexample:
  "replayBatches (tl residueInvoices) ''2024-01-05''
     = [\<lparr>quantity = 1, cost = 100\<rparr>, \<lparr>quantity = 0.0000005, cost = 100\<rparr>]
   \<and> batchesStock (replayBatches (tl residueInvoices) ''2024-01-05'')
       < quantityGrams (hd residueInvoices)
   \<and> replayBatches residueInvoices ''2024-01-05'' = [\<lparr>quantity = 0.0000005, cost = 100\<rparr>]
   \<and> replayBatches residueInvoices ''2024-01-05'' \<noteq> []"
  by (simp add: residueInvoices_def replay_eval)

text \<open>
  Claim C9, amended. The replayer is a total function (the loop of a sale has a termination
  proof). For invoices without a negative quantity or rate and any target date, its result
  is not negative; after every prefix of the replay no scratch pair has a negative quantity
  or cost; a sale that exceeds the stock of the scratch list by more than 0.000001 g empties
  the list; and the empty invoice list gives 0.
\<close>

theorem C9_replay_nonnegative:
  assumes "\<forall>i\<in>set invs. 0 \<le> quantityGrams i \<and> 0 \<le> ratePerGram i"
  shows "0 \<le> calculateInventoryValueOnDate invs targetDate
       \<and> (\<forall>n. \<forall>b\<in>set (foldl replayStep [] (take n (relevantInvoices invs targetDate))).
             0 \<le> quantity b \<and> 0 \<le> cost b)
       \<and> (\<forall>bs q. (\<forall>b\<in>set bs. 0 \<le> quantity b) \<longrightarrow> batchesStock bs + 0.000001 < q
             \<longrightarrow> sellFromBatches q bs = [] \<and> replayStep bs (sale\<lparr>type := SALE, quantityGrams := q\<rparr>) = [])
       \<and> calculateInventoryValueOnDate [] targetDate = 0"
proof -
  have 1: "0 \<le> calculateInventoryValueOnDate invs targetDate"
    by (rule value_nonneg[OF assms])
  have 2: "\<forall>n. \<forall>b\<in>set (foldl replayStep [] (take n (relevantInvoices invs targetDate))).
             0 \<le> quantity b \<and> 0 \<le> cost b"
    using replayBatches_nonneg[OF assms, of _ targetDate]
    by (simp add: list_all_iff nonnegBatch_def)
  have 3: "\<forall>bs q. (\<forall>b\<in>set bs. 0 \<le> quantity b) \<longrightarrow> batchesStock bs + 0.000001 < q
             \<longrightarrow> sellFromBatches q bs = [] \<and> replayStep bs (sale\<lparr>type := SALE, quantityGrams := q\<rparr>) = []"
    using sellFromBatches_empties by (simp add: list_all_iff replayStep_def)
  from 1 2 3 show ?thesis by (simp add: calculateInventoryValueOnDate_Nil)
qed

theorem C9_witness:
  "0 \<le> calculateInventoryValueOnDate (invoices scenario2Ledger) ''2024-01-05''
   \<and> calculateInventoryValueOnDate (invoices scenario2Ledger) ''2024-01-05'' = 248000
   \<and> list_all (\<lambda>i. 0 \<le> quantityGrams i \<and> 0 \<le> ratePerGram i) (invoices scenario2Ledger)"
proof -
  have h: "\<forall>i\<in>set (invoices scenario2Ledger). 0 \<le> quantityGrams i \<and> 0 \<le> ratePerGram i"
    by (simp add: scenario2Ledger_invoices mkInvoice_def)
  from C9_replay_nonnegative[OF h, of "''2024-01-05''"] h show ?thesis
    by (simp add: scenario2Ledger_values list_all_iff)
qed

subsection \<open>Turnover\<close>

lemma periodCOGS_sum:
  "periodCOGS invs startDate endDate =
     sum_list (map (\<lambda>i. orZero (cogs i))
       (filter (\<lambda>i. type i = SALE \<and> startDate \<le> date i \<and> date i \<le> endDate) invs))"
  by (simp add: periodCOGS_def foldl_plus_sum_list conj_commute conj_left_commute)

lemma periodCOGS_nonneg:
  assumes "\<forall>i\<in>set invs. 0 \<le> orZero (cogs i)"
  shows "0 \<le> periodCOGS invs startDate endDate"
  unfolding periodCOGS_sum using assms by (intro sum_list_nonneg_real) simp

lemma daysInPeriod_day1_day5: "daysInPeriod ''2024-01-01'' ''2024-01-05'' = Some 4"
  by (simp add: daysInPeriod_def timeDiff_def getTime_days)

lemma negativeRate_invoices:
  "invoices (foldl submit initialState negativeRateEntries) =
     [(mkInvoice ''s1'' ''2024-01-03'' SALE ''Customer C'' 4 6 3)
        \<lparr>cogs := Some (- 20), profit := Some 44\<rparr>,
      mkInvoice ''p1'' ''2024-01-01'' PURCHASE ''Supplier A'' 10 (- 5) 3]"
  by (simp add: negativeRateEntries_def form_eval ledger_eval getTime_days lower_eval)

text \<open>
  Claim C6, as it is written, fails when the average inventory value is negative. The entry
  form accepts a purchase of 10 g at a rate of - 5; after a sale of 4 g the replayer gives - 50
  at the start and - 30 at the end of the period, the average is - 40 and \<open>totalCOGS\<close> is - 20.
  The denominator is not 0, the quotient of the claim is 0.5, and the code returns a ratio
  of 0.
\<close>

theorem C6_counterexample:
  "calculateTurnoverStats (invoices (foldl submit initialState negativeRateEntries))
      ''2024-01-01'' ''2024-01-05''
    = \<lparr>turnoverRatio = 0, avgDaysToSell = Some 0, avgInventoryValue = - 40, totalCOGS = - 20\<rparr>
   \<and> (- 20 :: real) / (- 40) \<noteq> 0"
  by (simp add: negativeRate_invoices calculateTurnoverStats_def periodCOGS_def orZero_def
      replay_eval)

text \<open>
  Claim C6, amended. For every invoice list and any two dates: \<open>totalCOGS\<close> is the sum of \<open>cogs\<close>
  (an absent one counts as 0) over the sales dated in the range; \<open>avgInventoryValue\<close> is the
  mean of the replayer's values at the start and at the end; \<open>turnoverRatio\<close> is their quotient
  when the average is positive, and 0 otherwise, also for a negative average; \<open>avgDaysToSell\<close>
  is the length of the period (\<^verbatim>\<open>daysInPeriod\<close>: the days between the two dates, at least 1, NaN
  for an invalid date) divided by the ratio when the ratio is positive, and 0 otherwise. For
  invoices without a negative quantity, rate or \<open>cogs\<close>, neither the average nor the ratio is
  negative, so that 0 is returned for an average of 0 and for a ratio of 0 only. No case
  divides by zero, and the empty invoice list gives the all-zero result.
\<close>

theorem C6_turnover:
  "totalCOGS (calculateTurnoverStats invs startDate endDate) =
           sum_list (map (\<lambda>i. orZero (cogs i))
             (filter (\<lambda>i. type i = SALE \<and> startDate \<le> date i \<and> date i \<le> endDate) invs))
       \<and> avgInventoryValue (calculateTurnoverStats invs startDate endDate) =
           (calculateInventoryValueOnDate invs startDate
            + calculateInventoryValueOnDate invs endDate) / 2
       \<and> turnoverRatio (calculateTurnoverStats invs startDate endDate) =
           (if 0 < avgInventoryValue (calculateTurnoverStats invs startDate endDate)
            then totalCOGS (calculateTurnoverStats invs startDate endDate)
                 / avgInventoryValue (calculateTurnoverStats invs startDate endDate)
            else 0)
       \<and> avgDaysToSell (calculateTurnoverStats invs startDate endDate) =
           (if 0 < turnoverRatio (calculateTurnoverStats invs startDate endDate)
            then map_option
                   (\<lambda>days. days / turnoverRatio (calculateTurnoverStats invs startDate endDate))
                   (daysInPeriod startDate endDate)
            else Some 0)
       \<and> ((\<forall>i\<in>set invs. 0 \<le> quantityGrams i \<and> 0 \<le> ratePerGram i \<and> 0 \<le> orZero (cogs i)) \<longrightarrow>
            0 \<le> avgInventoryValue (calculateTurnoverStats invs startDate endDate)
            \<and> 0 \<le> turnoverRatio (calculateTurnoverStats invs startDate endDate))
       \<and> calculateTurnoverStats [] startDate endDate =
           \<lparr>turnoverRatio = 0, avgDaysToSell = Some 0, avgInventoryValue = 0, totalCOGS = 0\<rparr>"
proof -
  let ?c = "periodCOGS invs startDate endDate"
  let ?a = "(calculateInventoryValueOnDate invs startDate
            + calculateInventoryValueOnDate invs endDate) / 2"
  let ?r = "if ?a > 0 then ?c / ?a else 0"
  have st: "calculateTurnoverStats invs startDate endDate =
          \<lparr>turnoverRatio = ?r,
           avgDaysToSell = (if ?r > 0 then map_option (\<lambda>d. d / ?r) (daysInPeriod startDate endDate)
                            else Some 0),
           avgInventoryValue = ?a, totalCOGS = ?c\<rparr>"
    by (simp add: calculateTurnoverStats_def Let_def)
  have nn: "0 \<le> ?a \<and> 0 \<le> ?r"
    if h: "\<forall>i\<in>set invs. 0 \<le> quantityGrams i \<and> 0 \<le> ratePerGram i \<and> 0 \<le> orZero (cogs i)"
  proof -
    have c0: "0 \<le> ?c" using h by (intro periodCOGS_nonneg) simp
    have a0: "0 \<le> ?a"
      using value_nonneg[of invs startDate] value_nonneg[of invs endDate] h by simp
    from c0 a0 show ?thesis by simp
  qed
  have e: "calculateTurnoverStats [] startDate endDate =
           \<lparr>turnoverRatio = 0, avgDaysToSell = Some 0, avgInventoryValue = 0, totalCOGS = 0\<rparr>"
    by (simp add: calculateTurnoverStats_def Let_def periodCOGS_def
        calculateInventoryValueOnDate_Nil)
  show ?thesis
    unfolding st TurnoverStats.simps
    using nn e periodCOGS_sum[of invs startDate endDate] by simp
qed

theorem C6_witness:
  "calculateTurnoverStats (invoices scenario2Ledger) ''2024-01-01'' ''2024-01-05'' =
     \<lparr>turnoverRatio = 181 / 137, avgDaysToSell = Some (548 / 181),
      avgInventoryValue = 274000, totalCOGS = 362000\<rparr>
   \<and> list_all (\<lambda>i. 0 \<le> quantityGrams i \<and> 0 \<le> ratePerGram i \<and> 0 \<le> orZero (cogs i))
       (invoices scenario2Ledger)"
proof -
  have h: "\<forall>i\<in>set (invoices scenario2Ledger).
             0 \<le> quantityGrams i \<and> 0 \<le> ratePerGram i \<and> 0 \<le> orZero (cogs i)"
    by (simp add: scenario2Ledger_invoices mkInvoice_def orZero_def)
  have eq: "\<And>s::TurnoverStats. s = \<lparr>turnoverRatio = turnoverRatio s,
      avgDaysToSell = avgDaysToSell s, avgInventoryValue = avgInventoryValue s,
      totalCOGS = totalCOGS s\<rparr>" by simp
  have c: "sum_list (map (\<lambda>i. orZero (cogs i))
             (filter (\<lambda>i. type i = SALE \<and> ''2024-01-01'' \<le> date i \<and> date i \<le> ''2024-01-05'')
                (invoices scenario2Ledger))) = 362000"
    using scenario2Ledger_values(3) by (simp add: periodCOGS_sum)
  have w: "calculateTurnoverStats (invoices scenario2Ledger) ''2024-01-01'' ''2024-01-05'' =
     \<lparr>turnoverRatio = 181 / 137, avgDaysToSell = Some (548 / 181),
      avgInventoryValue = 274000, totalCOGS = 362000\<rparr>"
    using C6_turnover[of "invoices scenario2Ledger" "''2024-01-01''" "''2024-01-05''"]
    apply (subst eq)
    apply (simp only: c scenario2Ledger_values daysInPeriod_day1_day5)
    apply simp
    done
  from w h show ?thesis by (simp add: list_all_iff)
qed

subsection \<open>Grouping by party name\<close>

lemma map_of_updateEntry:
  "map_of (updateEntry k f d kvs) =
     (map_of kvs)(k \<mapsto> f (case map_of kvs k of None \<Rightarrow> d | Some v \<Rightarrow> v))"
  by (induction kvs) (auto simp: fun_eq_iff)

lemma keys_updateEntry: "fst ` set (updateEntry k f d kvs) = insert k (fst ` set kvs)"
proof (induction kvs)
  case Nil
  then show ?case by simp
next
  case (Cons kv kvs)
  obtain k' v where kv: "kv = (k', v)" by (cases kv)
  show ?case
  proof (cases "k' = k")
    case True
    with kv show ?thesis by simp
  next
    case False
    with kv Cons.IH show ?thesis by (simp add: insert_commute)
  qed
qed

lemma distinct_updateEntry:
  "distinct (map fst kvs) \<Longrightarrow> distinct (map fst (updateEntry k f d kvs))"
proof (induction kvs)
  case Nil
  then show ?case by simp
next
  case (Cons kv kvs)
  obtain k' v where kv: "kv = (k', v)" by (cases kv)
  show ?case
  proof (cases "k' = k")
    case True
    with Cons.prems kv show ?thesis by simp
  next
    case False
    have "k' \<notin> set (map fst (updateEntry k f d kvs))"
      using Cons.prems kv False by (simp add: keys_updateEntry)
    with Cons kv False show ?thesis by simp
  qed
qed

lemma map_of_groupStep:
  "map_of (groupStep key f D kvs i) =
     (map_of kvs)(key i \<mapsto> f i (case map_of kvs (key i) of None \<Rightarrow> D (key i) | Some v \<Rightarrow> v))"
  by (simp add: groupStep_def map_of_updateEntry)

lemma distinct_groupFold:
  "distinct (map fst kvs) \<Longrightarrow> distinct (map fst (foldl (groupStep key f D) kvs is))"
  by (induction "is" arbitrary: kvs) (simp_all add: groupStep_def distinct_updateEntry)

lemma map_of_groupFold:
  "map_of (foldl (groupStep key f D) kvs is) k =
     (case map_of kvs k of
        Some v \<Rightarrow> Some (foldl (\<lambda>a i. f i a) v (filter (\<lambda>i. key i = k) is))
      | None \<Rightarrow> (if filter (\<lambda>i. key i = k) is = [] then None
                 else Some (foldl (\<lambda>a i. f i a) (D k) (filter (\<lambda>i. key i = k) is))))"
proof (induction "is" arbitrary: kvs)
  case Nil
  then show ?case by (simp split: option.splits)
next
  case (Cons i "is")
  show ?case
    by (simp add: Cons.IH map_of_groupStep split: option.splits)
qed

lemma groupFold_entry:
  assumes "(k, a) \<in> set (foldl (groupStep key f D) [] is)"
  shows "filter (\<lambda>i. key i = k) is \<noteq> []
       \<and> a = foldl (\<lambda>a i. f i a) (D k) (filter (\<lambda>i. key i = k) is)"
proof -
  have "distinct (map fst (foldl (groupStep key f D) [] is))"
    by (rule distinct_groupFold) simp
  with assms have "map_of (foldl (groupStep key f D) [] is) k = Some a" by simp
  then show ?thesis
    by (simp add: map_of_groupFold split: if_splits)
qed

lemma set_objectEntries: "set (objectEntries kvs) = set kvs"
  by (auto simp: objectEntries_def)

subsection \<open>Supplier statistics\<close>



text \<open>The loop throws only for a party name that \<^verbatim>\<open>Object.prototype\<close> has.\<close>

lemma supplierLoop_returns:
  "\<forall>i\<in>set is. partyName i \<notin> set objectPrototypeKeys \<Longrightarrow> \<exists>res. supplierLoop stats is = Inr res"
  by (induction "is" arbitrary: stats) (simp_all add: supplierStep_def)

lemma calculateSupplierStats_returns:
  assumes "\<forall>i\<in>set invs. type i = PURCHASE \<longrightarrow> partyName i \<notin> set objectPrototypeKeys"
  shows "\<exists>stats. calculateSupplierStats invs = Inr stats"
proof -
  have "\<forall>i\<in>set (filter (\<lambda>i. type i = PURCHASE) invs). partyName i \<notin> set objectPrototypeKeys"
    using assms by simp
  from supplierLoop_returns[OF this, of "[]"] show ?thesis
    by (auto simp: calculateSupplierStats_def)
qed








subsection \<open>Customer statistics\<close>

lemma dealerInvoices_eval:
  "dealerInvoices =
     [(mkInvoice ''s1'' ''2024-01-03'' SALE ''Dealer D'' 150 6500 3)
        \<lparr>cogs := Some 900000, profit := Some 75000\<rparr>,
      mkInvoice ''p1'' ''2024-01-01'' PURCHASE ''Dealer D'' 200 6000 3]"
  by (simp add: dealerInvoices_def ledger_eval)

lemmas stats_eval = objectPrototypeKeys_def objectEntries_def isArrayIndex_def digitVal_def
  indexValue_def js_sort_def lessBy_def Let_def mkInvoice_def orZero_def

lemma dealer_customerData:
  "customerData dealerInvoices =
     [\<lparr>name = ''Dealer D'', totalGrams = 150, totalSpend = 1004250, profitContribution = 75000,
       txCount = 2, avgProfitPerGram = 500, margin = 10000 / 1339, avgQtyPerTx = 75,
       avgSellingPrice = 6695, behaviorPattern = ''Regular (High Margin)''\<rparr>]"
  by (simp add: dealerInvoices_eval customerData_def customerStep_def customerRow_def stats_eval)

text \<open>
  Claim C7, as it is written, fails for a counterparty that is also a supplier: \<^verbatim>\<open>txCount\<close> counts
  the purchase from the dealer as well (\<^verbatim>\<open>types.ts\<close>: total transactions, buy and sell), so the one
  sale of 150 g gives an average of 75 g per transaction and the tag \<^verbatim>\<open>Regular\<close>, where the sale
  transactions alone give 150 g and \<^verbatim>\<open>Bulk Buyer\<close>.
\<close>

theorem C7_counterexample:
  "map behaviorPattern (customerData dealerInvoices) = [''Regular (High Margin)'']
   \<and> map quantityGrams (salesOf dealerInvoices ''Dealer D'') = [150]
   \<and> specBaseTag dealerInvoices ''Dealer D'' = ''Bulk Buyer''"
  by (simp add: dealer_customerData) (simp add: dealerInvoices_eval specBaseTag_def salesOf_def mkInvoice_def)

lemma customerStep_groupStep:
  "customerStep kvs i =
     (if partyName i \<in> set objectPrototypeKeys then kvs
      else groupStep partyName customerUpdate customerAcc0 kvs i)"
  by (auto simp: customerStep_def groupStep_def customerUpdate_def customerAcc0_def fun_eq_iff
      intro!: arg_cong[where f="\<lambda>f. updateEntry _ f _ _"])

lemma foldl_customerStep:
  "foldl customerStep kvs is =
     foldl (groupStep partyName customerUpdate customerAcc0) kvs
       (filter (\<lambda>i. partyName i \<notin> set objectPrototypeKeys) is)"
  by (induction "is" arbitrary: kvs) (simp_all add: customerStep_groupStep)

lemma foldl_customerUpdate:
  "foldl (\<lambda>a i. customerUpdate i a) a js =
     \<lparr>accName = accName a,
      accGrams = accGrams a + sum_list (map quantityGrams (filter (\<lambda>i. type i = SALE) js)),
      accSpend = accSpend a + sum_list (map totalAmount (filter (\<lambda>i. type i = SALE) js)),
      accProfit = accProfit a
                  + sum_list (map (\<lambda>i. orZero (profit i)) (filter (\<lambda>i. type i = SALE) js)),
      accTxCount = accTxCount a + length js\<rparr>"
  by (induction js arbitrary: a) (simp_all add: customerUpdate_def)

lemma insertBy_desc:
  assumes "sorted_wrt (\<lambda>a b. kf b \<le> kf a) ys"
  shows "sorted_wrt (\<lambda>a b. kf b \<le> kf a) (insertBy (\<lambda>a b. Some (kf b - kf a)) x ys)"
  using assms
proof (induction ys)
  case Nil
  then show ?case by simp
next
  case (Cons y ys)
  show ?case
  proof (cases "lessBy (\<lambda>a b. Some (kf b - kf a)) x y")
    case True
    then have "kf y < kf x" by (simp add: lessBy_def)
    with Cons.prems show ?thesis using True by (auto simp: less_imp_le intro: order_trans)
  next
    case False
    then have xy: "kf x \<le> kf y" by (simp add: lessBy_def)
    have "set (insertBy (\<lambda>a b. Some (kf b - kf a)) x ys) = insert x (set ys)"
      by (metis mset_insertBy set_mset_add_mset_insert set_mset_mset)
    with Cons xy False show ?thesis by auto
  qed
qed

lemma js_sort_desc:
  "sorted_wrt (\<lambda>a b. kf b \<le> kf a) (js_sort (\<lambda>a b. Some (kf b - kf a)) xs)" for kf :: "'a \<Rightarrow> real"
proof -
  have "sorted_wrt (\<lambda>a b. kf b \<le> kf a) acc \<Longrightarrow>
        sorted_wrt (\<lambda>a b. kf b \<le> kf a) (foldl (\<lambda>acc x. insertBy (\<lambda>a b. Some (kf b - kf a)) x acc) acc xs)" for acc
    by (induction xs arbitrary: acc) (simp_all add: insertBy_desc)
  from this[of "[]"] show ?thesis by (simp add: js_sort_def)
qed

text \<open>
  Claim C7, amended. Every entry of the customer statistics belongs to a counterparty with a
  positive total spend. Its \<open>txCount\<close> is the number of all invoices of the counterparty in the
  filtered list, purchases and sales; grams, spend and profit are summed over its sales; the
  margin is profit by spend in percent. The base tag is \<^verbatim>\<open>Bulk Buyer\<close> if grams by \<open>txCount\<close> is
  above 100, else \<^verbatim>\<open>Frequent\<close> if \<open>txCount\<close> is above 5, else \<^verbatim>\<open>Regular\<close>; it is followed by
  \<^verbatim>\<open> (Price Sensitive)\<close> for a margin below 0.5, by \<^verbatim>\<open> (High Margin)\<close> for a margin above 2.0,
  and by nothing otherwise, so never by both. The list is sorted by profit contribution,
  descending.
\<close>

theorem C7_customer_pattern:
  assumes "c \<in> set (customerData invs)"
  shows "txCount c = length (filter (\<lambda>i. partyName i = name c) invs)
       \<and> totalGrams c = sum_list (map quantityGrams (salesOf invs (name c)))
       \<and> totalSpend c = sum_list (map totalAmount (salesOf invs (name c)))
       \<and> profitContribution c = sum_list (map (\<lambda>i. orZero (profit i)) (salesOf invs (name c)))
       \<and> 0 < totalSpend c
       \<and> margin c = profitContribution c / totalSpend c * 100
       \<and> avgQtyPerTx c = totalGrams c / real (txCount c)
       \<and> behaviorPattern c =
           (if avgQtyPerTx c > 100 then ''Bulk Buyer''
            else if txCount c > 5 then ''Frequent'' else ''Regular'') @ patternSuffix (margin c)
       \<and> sorted_wrt (\<lambda>a b. profitContribution b \<le> profitContribution a) (customerData invs)"
proof -
  let ?ok = "filter (\<lambda>i. partyName i \<notin> set objectPrototypeKeys) invs"
  let ?accs = "foldl (groupStep partyName customerUpdate customerAcc0) [] ?ok"
  from assms obtain k a where ka: "(k, a) \<in> set ?accs" and sp: "0 < accSpend a"
    and c: "c = customerRow a"
    by (auto simp: customerData_def Let_def set_js_sort set_objectEntries foldl_customerStep)
  let ?js = "filter (\<lambda>i. partyName i = k) ?ok"
  from groupFold_entry[OF ka]
  have ne: "?js \<noteq> []" and a: "a = foldl (\<lambda>a i. customerUpdate i a) (customerAcc0 k) ?js"
    by simp_all
  from ne have "set ?js \<noteq> {}" by (simp only: set_empty not_False_eq_True)
  then have "k \<notin> set objectPrototypeKeys" by auto
  then have js: "?js = filter (\<lambda>i. partyName i = k) invs"
    by (auto intro: filter_cong)
  have a': "a = \<lparr>accName = k,
      accGrams = sum_list (map quantityGrams (salesOf invs k)),
      accSpend = sum_list (map totalAmount (salesOf invs k)),
      accProfit = sum_list (map (\<lambda>i. orZero (profit i)) (salesOf invs k)),
      accTxCount = length (filter (\<lambda>i. partyName i = k) invs)\<rparr>"
    unfolding a foldl_customerUpdate js by (simp add: customerAcc0_def salesOf_def)
  have nm: "name c = k" by (simp add: c customerRow_def Let_def a')
  have "sorted_wrt (\<lambda>a b. profitContribution b \<le> profitContribution a) (customerData invs)"
    unfolding customerData_def Let_def by (rule js_sort_desc)
  moreover have "txCount c = length (filter (\<lambda>i. partyName i = name c) invs)"
    unfolding nm by (simp add: c customerRow_def Let_def a')
  moreover have "totalGrams c = sum_list (map quantityGrams (salesOf invs (name c)))"
    unfolding nm by (simp add: c customerRow_def Let_def a')
  moreover have "totalSpend c = sum_list (map totalAmount (salesOf invs (name c)))"
    unfolding nm by (simp add: c customerRow_def Let_def a')
  moreover have "profitContribution c = sum_list (map (\<lambda>i. orZero (profit i)) (salesOf invs (name c)))"
    unfolding nm by (simp add: c customerRow_def Let_def a')
  moreover have "0 < totalSpend c" using sp by (simp add: c customerRow_def Let_def)
  moreover have "margin c = profitContribution c / totalSpend c * 100"
    using sp by (simp add: c customerRow_def Let_def)
  moreover have "avgQtyPerTx c = totalGrams c / real (txCount c)"
    by (simp add: c customerRow_def Let_def)
  moreover have "behaviorPattern c =
           (if avgQtyPerTx c > 100 then ''Bulk Buyer''
            else if txCount c > 5 then ''Frequent'' else ''Regular'') @ patternSuffix (margin c)"
    by (simp add: c customerRow_def Let_def patternSuffix_def)
  ultimately show ?thesis by blast
qed

theorem C7_witness:
  "txCount (hd (customerData dealerInvoices)) = 2
   \<and> length (filter (\<lambda>i. partyName i = ''Dealer D'') dealerInvoices) = 2
   \<and> avgQtyPerTx (hd (customerData dealerInvoices)) = 75
   \<and> margin (hd (customerData dealerInvoices)) = 10000 / 1339
   \<and> behaviorPattern (hd (customerData dealerInvoices)) = ''Regular'' @ patternSuffix (10000 / 1339)"
proof -
  have h: "hd (customerData dealerInvoices) \<in> set (customerData dealerInvoices)"
    by (simp add: dealer_customerData)
  have n: "length (filter (\<lambda>i. partyName i = ''Dealer D'') dealerInvoices) = 2"
    by (simp add: dealerInvoices_eval mkInvoice_def)
  from C7_customer_pattern[OF h] n show ?thesis
    by (simp add: dealer_customerData)
qed

subsection \<open>Conservation of quantity\<close>

















subsection \<open>The replayer on the store\<close>

lemma those_map_Some:
  "those (map f xs) = Some ys \<longleftrightarrow> list_all2 (\<lambda>x y. f x = Some y) xs ys"
proof (induction xs arbitrary: ys)
  case Nil
  then show ?case by auto
next
  case (Cons x xs)
  show ?case
    by (cases "f x"; cases ys) (auto simp: Cons.IH)
qed

lemma readInvoices_Some:
  "readInvoices h a = Some invs \<longleftrightarrow>
     (\<exists>rs. getArray h a = Some rs \<and> list_all2 (\<lambda>r i. getInvoice h r = Some i) rs invs)"
  by (auto simp: readInvoices_def those_map_Some split: option.splits)

lemma get_setObject:
  "r \<noteq> a \<Longrightarrow> getInvoice (setObject h a obj) r = getInvoice h r"
  "r \<noteq> a \<Longrightarrow> getBatch (setObject h a obj) r = getBatch h r"
  "r \<noteq> a \<Longrightarrow> getArray (setObject h a obj) r = getArray h r"
  "getBatch (setObject h a (BatchObj b)) a = Some b"
  "getArray (setObject h a (ArrayObj rs)) a = Some rs"
  "nextRef (setObject h a obj) = nextRef h"
  by (simp_all add: getInvoice_def getBatch_def getArray_def setObject_def)

lemma objects_setObject: "objects (setObject h a obj) r = (if r = a then Some obj else objects h r)"
  by (simp add: setObject_def)

lemma get_alloc:
  "r \<noteq> nextRef h \<Longrightarrow> getInvoice (snd (alloc h obj)) r = getInvoice h r"
  "r \<noteq> nextRef h \<Longrightarrow> getBatch (snd (alloc h obj)) r = getBatch h r"
  "r \<noteq> nextRef h \<Longrightarrow> getArray (snd (alloc h obj)) r = getArray h r"
  "getBatch (snd (alloc h (BatchObj b))) (nextRef h) = Some b"
  "fst (alloc h obj) = nextRef h"
  "nextRef (snd (alloc h obj)) = Suc (nextRef h)"
  by (simp_all add: getInvoice_def getBatch_def getArray_def alloc_def)

lemma objects_alloc:
  "objects (snd (alloc h obj)) r = (if r = nextRef h then Some obj else objects h r)"
  by (simp add: alloc_def)

lemma freshAbove_alloc: "freshAbove h \<Longrightarrow> freshAbove (snd (alloc h obj))"
  by (simp add: freshAbove_def alloc_def)

lemma fresh_get:
  assumes "freshAbove h"
  shows "getInvoice h r = Some i \<Longrightarrow> r < nextRef h"
    and "getBatch h r = Some b \<Longrightarrow> r < nextRef h"
    and "getArray h r = Some rs \<Longrightarrow> r < nextRef h"
  using assms
  by (auto simp: freshAbove_def getInvoice_def getBatch_def getArray_def not_le[symmetric]
      split: option.splits)

lemma filterRefs_rel:
  "list_all2 (\<lambda>r i. getInvoice h r = Some i) rs invs \<Longrightarrow>
   \<exists>fs. filterRefs h d rs = Some fs
      \<and> list_all2 (\<lambda>r i. getInvoice h r = Some i) fs (filter (\<lambda>i. date i \<le> d) invs)"
  by (induction rule: list_all2_induct) auto

lemma insertBy_rel:
  "list_all2 (\<lambda>r i. getInvoice h r = Some i) ys js \<Longrightarrow> getInvoice h x = Some i \<Longrightarrow>
   list_all2 (\<lambda>r i. getInvoice h r = Some i)
     (insertBy (refTimeDiff h) x ys) (insertBy (\<lambda>a b. timeDiff (date a) (date b)) i js)"
  by (induction rule: list_all2_induct) (auto simp: lessBy_def refTimeDiff_def)

lemma foldl_insertBy_rel:
  "list_all2 (\<lambda>r i. getInvoice h r = Some i) xs is \<Longrightarrow>
   list_all2 (\<lambda>r i. getInvoice h r = Some i) acc accI \<Longrightarrow>
   list_all2 (\<lambda>r i. getInvoice h r = Some i)
     (foldl (\<lambda>acc x. insertBy (refTimeDiff h) x acc) acc xs)
     (foldl (\<lambda>acc x. insertBy (\<lambda>a b. timeDiff (date a) (date b)) x acc) accI is)"
proof (induction arbitrary: acc accI rule: list_all2_induct)
  case Nil
  then show ?case by simp
next
  case (Cons x xs i "is")
  from Cons.IH[OF insertBy_rel[OF Cons.prems Cons.hyps(1)]] show ?case by simp
qed

lemma js_sort_rel:
  "list_all2 (\<lambda>r i. getInvoice h r = Some i) xs is \<Longrightarrow>
   list_all2 (\<lambda>r i. getInvoice h r = Some i)
     (js_sort (refTimeDiff h) xs) (js_sort (\<lambda>a b. timeDiff (date a) (date b)) is)"
  unfolding js_sort_def by (rule foldl_insertBy_rel) simp_all

lemma sumBatches_rel:
  "list_all2 (\<lambda>r b. getBatch h r = Some b) bs pbs \<Longrightarrow>
   sumBatches h acc bs = Some (foldl (\<lambda>s b. s + quantity b * cost b) acc pbs)"
  by (induction arbitrary: acc rule: list_all2_induct) simp_all

lemma rel_frame:
  "list_all2 (\<lambda>r v. f r = Some v) xs ys \<Longrightarrow> \<forall>r\<in>set xs. f' r = f r \<Longrightarrow>
   list_all2 (\<lambda>r v. f' r = Some v) xs ys"
  by (erule list.rel_mono_strong) simp

lemma sell_heap_sim:
  "list_all2 (\<lambda>r b. getBatch h r = Some b) bs pbs \<Longrightarrow> distinct bs \<Longrightarrow>
   \<exists>h' bs'. sellFromBatches_heap h q bs = Some (h', bs')
     \<and> list_all2 (\<lambda>r b. getBatch h' r = Some b) bs' (sellFromBatches q pbs)
     \<and> distinct bs' \<and> set bs' \<subseteq> set bs \<and> nextRef h' = nextRef h
     \<and> (\<forall>r. r \<notin> set bs \<longrightarrow> objects h' r = objects h r)"
proof (induction h q bs arbitrary: pbs rule: sellFromBatches_heap.induct)
  case (1 h q)
  then show ?case by simp
next
  case (2 h q r rest)
  from "2.prems"(1) obtain pb prest where pbs: "pbs = pb # prest"
    and r: "getBatch h r = Some pb"
    and rest: "list_all2 (\<lambda>r b. getBatch h r = Some b) rest prest"
    by (auto simp: list_all2_Cons1)
  from "2.prems"(2) have d: "r \<notin> set rest" "distinct rest" by simp_all
  show ?case
  proof (cases "q > 0.000001")
    case False
    with "2.prems" pbs show ?thesis by simp
  next
    case True
    show ?thesis
    proof (cases "quantity pb > q")
      case c: True
      let ?pb' = "pb\<lparr>quantity := quantity pb - q\<rparr>"
      let ?h2 = "setObject h r (BatchObj ?pb')"
      have rel2: "list_all2 (\<lambda>r b. getBatch ?h2 r = Some b) (r # rest) (?pb' # prest)"
      proof -
        have "list_all2 (\<lambda>r b. getBatch ?h2 r = Some b) rest prest"
        proof (rule rel_frame[OF rest], intro ballI)
          fix x assume "x \<in> set rest"
          with d(1) have "x \<noteq> r" by auto
          then show "getBatch ?h2 x = getBatch h x" by (simp add: get_setObject)
        qed
        then show ?thesis by (simp add: get_setObject)
      qed
      from "2.IH"(1)[OF True r c rel2 "2.prems"(2)]
      obtain h' bs' where
        s: "sellFromBatches_heap ?h2 0 (r # rest) = Some (h', bs')"
        and rel: "list_all2 (\<lambda>r b. getBatch h' r = Some b) bs' (sellFromBatches 0 (?pb' # prest))"
        and rest': "distinct bs'" "set bs' \<subseteq> set (r # rest)" "nextRef h' = nextRef ?h2"
          "\<forall>x. x \<notin> set (r # rest) \<longrightarrow> objects h' x = objects ?h2 x"
        by blast
      have "sellFromBatches_heap h q (r # rest) = sellFromBatches_heap ?h2 0 (r # rest)"
        using True r c by simp
      with s have "sellFromBatches_heap h q (r # rest) = Some (h', bs')"
        by (simp only:)
      moreover have "sellFromBatches q pbs = sellFromBatches 0 (?pb' # prest)"
        using True c pbs by simp
      moreover have "\<forall>x. x \<notin> set (r # rest) \<longrightarrow> objects h' x = objects h x"
        using rest'(4) by (auto simp: objects_setObject)
      ultimately show ?thesis using rel rest' by (simp add: get_setObject)
    next
      case c: False
      from "2.IH"(2)[OF True r c rest d(2)]
      obtain h' bs' where
        s: "sellFromBatches_heap h (q - quantity pb) rest = Some (h', bs')"
        and rel: "list_all2 (\<lambda>r b. getBatch h' r = Some b) bs' (sellFromBatches (q - quantity pb) prest)"
        and rest': "distinct bs'" "set bs' \<subseteq> set rest" "nextRef h' = nextRef h"
          "\<forall>x. x \<notin> set rest \<longrightarrow> objects h' x = objects h x"
        by blast
      have "sellFromBatches_heap h q (r # rest)
              = sellFromBatches_heap h (q - quantity pb) rest"
        using True r c by simp
      with s have "sellFromBatches_heap h q (r # rest) = Some (h', bs')"
        by (simp only:)
      moreover have "sellFromBatches q pbs = sellFromBatches (q - quantity pb) prest"
        using True c pbs by simp
      ultimately show ?thesis using rel rest' by auto
    qed
  qed
qed

lemma get_objects_eq:
  "objects h' r = objects h r \<Longrightarrow> getInvoice h' r = getInvoice h r"
  "objects h' r = objects h r \<Longrightarrow> getBatch h' r = getBatch h r"
  "objects h' r = objects h r \<Longrightarrow> getArray h' r = getArray h r"
  by (simp_all add: getInvoice_def getBatch_def getArray_def)

lemma rel_dom:
  "list_all2 (\<lambda>r v. f r = Some v) xs ys \<Longrightarrow> x \<in> set xs \<Longrightarrow> \<exists>v. f x = Some v"
  by (induction rule: list_all2_induct) auto

lemma replay_heap_sim:
  "freshAbove h \<Longrightarrow> n \<le> nextRef h \<Longrightarrow>
   list_all2 (\<lambda>r i. getInvoice h r = Some i) is invs \<Longrightarrow> \<forall>r\<in>set is. r < n \<Longrightarrow>
   list_all2 (\<lambda>r b. getBatch h r = Some b) bs pbs \<Longrightarrow> distinct bs \<Longrightarrow> \<forall>b\<in>set bs. n \<le> b \<Longrightarrow>
   \<exists>h' bs'. replay_heap h bs is = Some (h', bs')
     \<and> list_all2 (\<lambda>r b. getBatch h' r = Some b) bs' (foldl replayStep pbs invs)
     \<and> sameBelow n h h' \<and> freshAbove h' \<and> nextRef h \<le> nextRef h'"
proof (induction "is" arbitrary: h bs pbs invs)
  case Nil
  then show ?case by (simp add: sameBelow_def)
next
  case (Cons r rest)
  from Cons.prems(3) obtain i irest where invs: "invs = i # irest"
    and r: "getInvoice h r = Some i"
    and rest: "list_all2 (\<lambda>r i. getInvoice h r = Some i) rest irest"
    by (auto simp: list_all2_Cons1)
  have bs_lt: "b < nextRef h" if "b \<in> set bs" for b
  proof -
    from rel_dom[OF Cons.prems(5) that] obtain v where "getBatch h b = Some v" by blast
    then show ?thesis by (rule fresh_get(2)[OF Cons.prems(1)])
  qed
  have r1: "\<forall>r\<in>set rest. r < n" using Cons.prems(4) by simp
  show ?case
  proof (cases "type i = PURCHASE")
    case True
    let ?nb = "\<lparr>quantity = quantityGrams i, cost = ratePerGram i\<rparr>"
    let ?h1 = "snd (alloc h (BatchObj ?nb))"
    let ?b = "nextRef h"
    have f1: "freshAbove ?h1" by (rule freshAbove_alloc[OF Cons.prems(1)])
    have n1: "n \<le> nextRef ?h1" using Cons.prems(2) by (simp add: get_alloc)
    have rel1: "list_all2 (\<lambda>r i. getInvoice ?h1 r = Some i) rest irest"
    proof (rule rel_frame[OF rest], intro ballI)
      fix x assume "x \<in> set rest"
      with r1 Cons.prems(2) have "x \<noteq> nextRef h" by auto
      then show "getInvoice ?h1 x = getInvoice h x" by (simp add: get_alloc)
    qed
    have b0: "list_all2 (\<lambda>r b. getBatch ?h1 r = Some b) bs pbs"
    proof (rule rel_frame[OF Cons.prems(5)], intro ballI)
      fix x assume "x \<in> set bs"
      with bs_lt have "x \<noteq> nextRef h" by auto
      then show "getBatch ?h1 x = getBatch h x" by (simp add: get_alloc)
    qed
    have b1: "list_all2 (\<lambda>r b. getBatch ?h1 r = Some b) (bs @ [?b]) (pbs @ [?nb])"
      by (rule list_all2_appendI[OF b0]) (simp add: get_alloc)
    have "?b \<notin> set bs" using bs_lt by auto
    then have d1: "distinct (bs @ [?b])" using Cons.prems(6) by simp
    have g1: "\<forall>b\<in>set (bs @ [?b]). n \<le> b" using Cons.prems(2,7) by simp
    from Cons.IH[OF f1 n1 rel1 r1 b1 d1 g1]
    obtain h' bs' where
      rp: "replay_heap ?h1 (bs @ [?b]) rest = Some (h', bs')"
      and rel: "list_all2 (\<lambda>r b. getBatch h' r = Some b) bs' (foldl replayStep (pbs @ [?nb]) irest)"
      and fr: "sameBelow n ?h1 h'" "freshAbove h'" "nextRef ?h1 \<le> nextRef h'"
      by blast
    have 1: "replay_heap h bs (r # rest) = Some (h', bs')"
      using r True rp by (simp add: case_prod_beta get_alloc)
    have "foldl replayStep pbs invs = foldl replayStep (pbs @ [?nb]) irest"
      using True invs by (simp add: replayStep_def)
    with rel have 2: "list_all2 (\<lambda>r b. getBatch h' r = Some b) bs' (foldl replayStep pbs invs)"
      by (simp only:)
    have 3: "sameBelow n h h'"
      unfolding sameBelow_def
    proof (intro allI impI)
      fix x assume x: "x < n"
      with Cons.prems(2) have "x \<noteq> nextRef h" by auto
      then have "objects ?h1 x = objects h x" by (simp add: objects_alloc)
      with fr(1) x show "objects h' x = objects h x" by (simp add: sameBelow_def)
    qed
    have 4: "nextRef h \<le> nextRef h'" using fr(3) by (simp add: get_alloc)
    from 1 2 3 4 fr(2) show ?thesis by blast
  next
    case False
    from sell_heap_sim[OF Cons.prems(5,6), of "quantityGrams i"]
    obtain h1 bs1 where
      s: "sellFromBatches_heap h (quantityGrams i) bs = Some (h1, bs1)"
      and b1: "list_all2 (\<lambda>r b. getBatch h1 r = Some b) bs1 (sellFromBatches (quantityGrams i) pbs)"
      and p1: "distinct bs1" "set bs1 \<subseteq> set bs" "nextRef h1 = nextRef h"
        "\<forall>r. r \<notin> set bs \<longrightarrow> objects h1 r = objects h r"
      by blast
    have same: "objects h1 x = objects h x" if "x < n" for x
    proof -
      from that Cons.prems(7) have "x \<notin> set bs" by auto
      with p1(4) show ?thesis by simp
    qed
    have f1: "freshAbove h1"
      unfolding freshAbove_def
    proof (intro allI impI)
      fix x assume x: "nextRef h1 \<le> x"
      then have "x \<notin> set bs" using bs_lt[of x] p1(3) by auto
      then have "objects h1 x = objects h x" using p1(4) by simp
      then show "objects h1 x = None" using Cons.prems(1) x p1(3) by (simp add: freshAbove_def)
    qed
    have n1: "n \<le> nextRef h1" using Cons.prems(2) p1(3) by simp
    have rel1: "list_all2 (\<lambda>r i. getInvoice h1 r = Some i) rest irest"
    proof (rule rel_frame[OF rest], intro ballI)
      fix x assume "x \<in> set rest"
      with r1 have "x < n" by simp
      then show "getInvoice h1 x = getInvoice h x" by (intro get_objects_eq same)
    qed
    have g1: "\<forall>b\<in>set bs1. n \<le> b" using Cons.prems(7) p1(2) by auto
    from Cons.IH[OF f1 n1 rel1 r1 b1 p1(1) g1]
    obtain h' bs' where
      rp: "replay_heap h1 bs1 rest = Some (h', bs')"
      and rel: "list_all2 (\<lambda>r b. getBatch h' r = Some b) bs'
                  (foldl replayStep (sellFromBatches (quantityGrams i) pbs) irest)"
      and fr: "sameBelow n h1 h'" "freshAbove h'" "nextRef h1 \<le> nextRef h'"
      by blast
    have 1: "replay_heap h bs (r # rest) = Some (h', bs')"
      using r False s rp by simp
    have "foldl replayStep pbs invs
            = foldl replayStep (sellFromBatches (quantityGrams i) pbs) irest"
      using False invs by (simp add: replayStep_def)
    with rel have 2: "list_all2 (\<lambda>r b. getBatch h' r = Some b) bs' (foldl replayStep pbs invs)"
      by (simp only:)
    have 3: "sameBelow n h h'"
      using fr(1) same by (simp add: sameBelow_def)
    have 4: "nextRef h \<le> nextRef h'" using fr(3) p1(3) by simp
    from 1 2 3 4 fr(2) show ?thesis by blast
  qed
qed

lemma sameBelow_trans:
  "sameBelow n h h1 \<Longrightarrow> sameBelow n h1 h2 \<Longrightarrow> sameBelow n h h2"
  by (simp add: sameBelow_def)

lemma sameBelow_mono: "sameBelow n h h' \<Longrightarrow> m \<le> n \<Longrightarrow> sameBelow m h h'"
  by (simp add: sameBelow_def)

lemma readInvoices_sameBelow:
  assumes "freshAbove h" "readInvoices h a = Some invs" "sameBelow (nextRef h) h h'"
  shows "readInvoices h' a = Some invs"
proof -
  from assms(2) obtain rs where a: "getArray h a = Some rs"
    and rel: "list_all2 (\<lambda>r i. getInvoice h r = Some i) rs invs"
    by (auto simp: readInvoices_Some)
  have "a < nextRef h" using a by (rule fresh_get(3)[OF assms(1)])
  then have "objects h' a = objects h a" using assms(3) by (simp add: sameBelow_def)
  then have a': "getArray h' a = Some rs"
    using a by (simp add: getArray_def)
  have "list_all2 (\<lambda>r i. getInvoice h' r = Some i) rs invs"
  proof (rule rel_frame[OF rel], intro ballI)
    fix x assume "x \<in> set rs"
    from rel_dom[OF rel this] obtain v where "getInvoice h x = Some v" by blast
    then have "x < nextRef h" by (rule fresh_get(1)[OF assms(1)])
    then have "objects h' x = objects h x" using assms(3) by (simp add: sameBelow_def)
    then show "getInvoice h' x = getInvoice h x" by (simp add: getInvoice_def)
  qed
  with a' show ?thesis by (auto simp: readInvoices_Some)
qed

lemma value_heap_sim:
  assumes fresh: "freshAbove h" and inv: "readInvoices h a = Some invs"
  shows "\<exists>h'. calculateInventoryValueOnDate_heap h a d
               = Some (calculateInventoryValueOnDate invs d, h')
           \<and> sameBelow (nextRef h) h h' \<and> freshAbove h' \<and> nextRef h \<le> nextRef h'"
proof -
  from inv obtain rs where a: "getArray h a = Some rs"
    and rel: "list_all2 (\<lambda>r i. getInvoice h r = Some i) rs invs"
    by (auto simp: readInvoices_Some)
  let ?n = "nextRef h"
  from filterRefs_rel[OF rel, of d] obtain fs where
    f: "filterRefs h d rs = Some fs"
    and frel: "list_all2 (\<lambda>r i. getInvoice h r = Some i) fs (filter (\<lambda>i. date i \<le> d) invs)"
    by (elim exE conjE)
  have fs_lt: "x < ?n" if "x \<in> set fs" for x
  proof -
    from rel_dom[OF frel that] obtain v where "getInvoice h x = Some v" by blast
    then show ?thesis by (rule fresh_get(1)[OF fresh])
  qed
  let ?h1 = "snd (alloc h (ArrayObj fs))"
  have frel1: "list_all2 (\<lambda>r i. getInvoice ?h1 r = Some i) fs (filter (\<lambda>i. date i \<le> d) invs)"
  proof (rule rel_frame[OF frel], intro ballI)
    fix x assume "x \<in> set fs"
    with fs_lt have "x \<noteq> ?n" by auto
    then show "getInvoice ?h1 x = getInvoice h x" by (simp add: get_alloc)
  qed
  let ?sorted = "js_sort (refTimeDiff ?h1) fs"
  let ?h2 = "setObject ?h1 ?n (ArrayObj ?sorted)"
  have srel1: "list_all2 (\<lambda>r i. getInvoice ?h1 r = Some i) ?sorted (relevantInvoices invs d)"
    unfolding relevantInvoices_def by (rule js_sort_rel[OF frel1])
  have s_lt: "x < ?n" if "x \<in> set ?sorted" for x
    using that fs_lt by (simp add: set_js_sort)
  have srel2: "list_all2 (\<lambda>r i. getInvoice ?h2 r = Some i) ?sorted (relevantInvoices invs d)"
  proof (rule rel_frame[OF srel1], intro ballI)
    fix x assume "x \<in> set ?sorted"
    with s_lt have "x \<noteq> ?n" by auto
    then show "getInvoice ?h2 x = getInvoice ?h1 x" by (simp add: get_setObject)
  qed
  have f2: "freshAbove ?h2"
    using fresh by (simp add: freshAbove_def setObject_def alloc_def)
  have n2: "Suc ?n = nextRef ?h2" by (simp add: get_setObject get_alloc)
  have below2: "sameBelow ?n h ?h2"
    by (simp add: sameBelow_def objects_setObject objects_alloc)
  have "\<exists>h' bs'. replay_heap ?h2 [] ?sorted = Some (h', bs')
     \<and> list_all2 (\<lambda>r b. getBatch h' r = Some b) bs' (foldl replayStep [] (relevantInvoices invs d))
     \<and> sameBelow ?n ?h2 h' \<and> freshAbove h' \<and> nextRef ?h2 \<le> nextRef h'"
  proof (rule replay_heap_sim[OF f2 _ srel2])
    show "?n \<le> nextRef ?h2" using n2 by simp
    show "\<forall>r\<in>set ?sorted. r < ?n" using s_lt by blast
  qed simp_all
  then obtain h3 bs3 where
    rp: "replay_heap ?h2 [] ?sorted = Some (h3, bs3)"
    and brel: "list_all2 (\<lambda>r b. getBatch h3 r = Some b) bs3 (replayBatches invs d)"
    and fr: "sameBelow ?n ?h2 h3" "freshAbove h3" "nextRef ?h2 \<le> nextRef h3"
    unfolding replayBatches_def by (elim exE conjE)
  have v: "sumBatches h3 0 bs3 = Some (calculateInventoryValueOnDate invs d)"
    using sumBatches_rel[OF brel, of 0]
    by (simp add: calculateInventoryValueOnDate_def batchesValue_def)
  have c: "calculateInventoryValueOnDate_heap h a d
          = Some (calculateInventoryValueOnDate invs d, h3)"
    unfolding calculateInventoryValueOnDate_heap_def
    by (simp only: a f rp v option.case prod.case case_prod_beta Let_def get_alloc get_setObject fst_conv snd_conv)
  have s3: "sameBelow ?n h h3" by (rule sameBelow_trans[OF below2 fr(1)])
  have n3: "?n \<le> nextRef h3" using fr(3) n2 by simp
  show ?thesis
    by (intro exI[of _ h3] conjI c s3 fr(2) n3)
qed

text \<open>
  Claim C5. On a store whose references from \<open>nextRef\<close> on are free, every sequence of calls
  of the replayer on the same invoice array returns, for each target date, the value of the
  pure function \<^const>\<open>calculateInventoryValueOnDate\<close> on the invoices the array refers to:
  the result depends on the invoice list and the date only, not on the calls made before.
  Every object that existed before the calls is left as it was, so neither the invoice array
  nor an invoice in it is mutated; the calls only allocate objects of their own.
\<close>

theorem C5_replayer_pure:
  assumes "freshAbove h" and "readInvoices h invoicesRef = Some invs"
  shows "\<exists>h'. valueCalls h invoicesRef dates
               = Some (map (calculateInventoryValueOnDate invs) dates, h')
           \<and> sameBelow (nextRef h) h h' \<and> readInvoices h' invoicesRef = Some invs"
proof -
  have "\<exists>h'. valueCalls h invoicesRef dates
               = Some (map (calculateInventoryValueOnDate invs) dates, h')
           \<and> sameBelow (nextRef h) h h' \<and> freshAbove h'"
    using assms
  proof (induction dates arbitrary: h)
    case Nil
    then show ?case by (simp add: sameBelow_def)
  next
    case (Cons d ds)
    from value_heap_sim[OF Cons.prems, of d] obtain h1 where
      c: "calculateInventoryValueOnDate_heap h invoicesRef d
            = Some (calculateInventoryValueOnDate invs d, h1)"
      and p: "sameBelow (nextRef h) h h1" "freshAbove h1" "nextRef h \<le> nextRef h1"
      by (elim exE conjE)
    have r1: "readInvoices h1 invoicesRef = Some invs"
      by (rule readInvoices_sameBelow[OF Cons.prems p(1)])
    from Cons.IH[OF p(2) r1] obtain h' where
      vc: "valueCalls h1 invoicesRef ds = Some (map (calculateInventoryValueOnDate invs) ds, h')"
      and q: "sameBelow (nextRef h1) h1 h'" "freshAbove h'"
      by (elim exE conjE)
    have 1: "valueCalls h invoicesRef (d # ds)
            = Some (map (calculateInventoryValueOnDate invs) (d # ds), h')"
      using c vc by simp
    have 2: "sameBelow (nextRef h) h h'"
      by (rule sameBelow_trans[OF p(1) sameBelow_mono[OF q(1) p(3)]])
    show ?case by (intro exI[of _ h'] conjI 1 2 q(2))
  qed
  then obtain h' where
    vc: "valueCalls h invoicesRef dates = Some (map (calculateInventoryValueOnDate invs) dates, h')"
    and sb: "sameBelow (nextRef h) h h'"
    by (elim exE conjE)
  show ?thesis
    by (intro exI[of _ h'] conjI vc sb readInvoices_sameBelow[OF assms sb])
qed

lemma sameDayHeap_read:
  "readInvoices sameDayHeap 2 =
     Some [mkInvoice ''s1'' ''2024-01-03'' SALE ''Customer C'' 4 120 3,
           mkInvoice ''p1'' ''2024-01-01'' PURCHASE ''Supplier A'' 10 100 3]"
  by (simp add: readInvoices_def sameDayHeap_def getArray_def getInvoice_def)

lemma sameDayHeap_fresh: "freshAbove sameDayHeap"
  by (simp add: freshAbove_def sameDayHeap_def)

lemma sameDay_values:
  "map (calculateInventoryValueOnDate
          [mkInvoice ''s1'' ''2024-01-03'' SALE ''Customer C'' 4 120 3,
           mkInvoice ''p1'' ''2024-01-01'' PURCHASE ''Supplier A'' 10 100 3])
     [''2024-01-03'', ''2024-01-01'', ''2024-01-03''] = [600, 1000, 600]"
  by (simp add: replay_eval)

theorem C5_witness:
  "\<exists>h'. valueCalls sameDayHeap 2 [''2024-01-03'', ''2024-01-01'', ''2024-01-03'']
           = Some ([600, 1000, 600], h')
        \<and> readInvoices h' 2 = readInvoices sameDayHeap 2"
proof -
  from C5_replayer_pure[OF sameDayHeap_fresh sameDayHeap_read,
      of "[''2024-01-03'', ''2024-01-01'', ''2024-01-03'']"]
  obtain h' where
    "valueCalls sameDayHeap 2 [''2024-01-03'', ''2024-01-01'', ''2024-01-03'']
       = Some (map (calculateInventoryValueOnDate
          [mkInvoice ''s1'' ''2024-01-03'' SALE ''Customer C'' 4 120 3,
           mkInvoice ''p1'' ''2024-01-01'' PURCHASE ''Supplier A'' 10 100 3])
          [''2024-01-03'', ''2024-01-01'', ''2024-01-03''], h')"
    and "readInvoices h' 2 = readInvoices sameDayHeap 2"
    unfolding sameDayHeap_read by blast
  then show ?thesis unfolding sameDay_values by blast
qed

subsection \<open>Replay against the live lots\<close>



























subsection \<open>Ledgers reached with valid operations\<close>

text \<open>Purchases and sales without a negative quantity, rate or \<open>cogs\<close> lead to ledgers without
  one: the \<open>cogs\<close> that a sale is stamped with is not negative, and no lot gets a negative
  stock. These are the ledgers and invoice lists of the data model.\<close>

lemma allocate_nonneg:
  "list_all lotNonneg bs \<Longrightarrow> 0 \<le> r \<Longrightarrow> 0 \<le> c \<Longrightarrow> allocate i bs r c = (bs', r', c') \<Longrightarrow>
   0 \<le> c' \<and> list_all lotNonneg bs'"
proof (induction bs arbitrary: r c bs' r' c')
  case Nil
  then show ?case by simp
next
  case (Cons b bs)
  have ok: "lotNonneg b" and oks: "list_all lotNonneg bs" using Cons.prems(1) by simp_all
  show ?case
  proof (cases "r \<le> 0")
    case True
    with Cons.prems show ?thesis by auto
  next
    case False
    show ?thesis
    proof (cases "remainingQuantity b > 0")
      case True
      let ?t = "min (remainingQuantity b) r"
      obtain rest r1 c1 where rec: "allocate i bs (r - ?t) (c + ?t * costPerGram b) = (rest, r1, c1)"
        by (cases "allocate i bs (r - ?t) (c + ?t * costPerGram b)") auto
      from Cons.prems(4) False True rec
      have res: "bs' = takeFromBatch i b ?t # rest" "c' = c1" by (simp_all add: Let_def)
      have t0: "0 \<le> ?t" using True False by simp
      have "0 \<le> ?t * costPerGram b" using t0 ok by (simp add: lotNonneg_def)
      then have c0: "0 \<le> c + ?t * costPerGram b" using Cons.prems(3) by simp
      have r0: "0 \<le> r - ?t" by simp
      have "?t \<le> remainingQuantity b" by simp
      then have "lotNonneg (takeFromBatch i b ?t)"
        using ok unfolding lotNonneg_def takeFromBatch_def Let_def
        by (auto simp del: min_less_iff_conj min.bounded_iff)
      with Cons.IH[OF oks r0 c0 rec] show ?thesis by (simp add: res)
    next
      case F2: False
      obtain rest r1 c1 where rec: "allocate i bs r c = (rest, r1, c1)"
        by (cases "allocate i bs r c") auto
      from Cons.prems(4) False F2 rec
      have res: "bs' = b # rest" "c' = c1" by (simp_all add: Let_def)
      from Cons.IH[OF oks Cons.prems(2,3) rec] ok show ?thesis by (simp add: res)
    qed
  qed
qed

lemma ledgerOk_step:
  assumes "ledgerOk s" "invoiceOk op"
  shows "ledgerOk (handleAddInvoice s op)"
proof (cases "type op = PURCHASE")
  case True
  with assms show ?thesis
    by (simp add: ledgerOk_def handleAddInvoice_def addToast_def sortInventory_def
        list_all_iff set_js_sort lotNonneg_def newBatch_def invoiceOk_def)
next
  case False
  obtain bs' r' c' where al: "allocate op (inventory s) (quantityGrams op) 0 = (bs', r', c')"
    by (cases "allocate op (inventory s) (quantityGrams op) 0") auto
  from assms have "list_all lotNonneg (inventory s)" "0 \<le> quantityGrams op"
    by (simp_all add: ledgerOk_def invoiceOk_def)
  from allocate_nonneg[OF this _ al] have "0 \<le> c'" "list_all lotNonneg bs'" by simp_all
  with False al assms show ?thesis
    by (simp add: ledgerOk_def handleAddInvoice_def addToast_def Let_def invoiceOk_def orZero_def)
qed

lemma ledgerOk_run:
  "ledgerOk s \<Longrightarrow> \<forall>op\<in>set ops. invoiceOk op \<Longrightarrow> ledgerOk (foldl handleAddInvoice s ops)"
  by (induction ops arbitrary: s) (simp_all add: ledgerOk_step)

lemma ledgerOk_initial: "ledgerOk initialState"
  by (simp add: ledgerOk_def initialState_def)

end
